theory Spec2Isabelle
  imports Complex_Main "HOL-Library.Word" "HOL-Library.Signed_Division"
begin

unbundle bit_operations_syntax

section \<open>Data model (cuda-rewrite/Mesh.cpp, cuda-rewrite/Utilities.h)\<close>

text \<open>
  Every integer of the source is an \<open>int32_t\<close> or a \<open>uint32_t\<close>: both are 32-bit
  words here, \<open>+\<close>, \<open>-\<close> and \<open>*\<close> wrap modulo \<open>2 ^ 32\<close>, and the signedness lives in
  the operations (\<open>\<le>s\<close>, \<open><s\<close>, \<open>sint\<close>, \<open>signed_drop_bit\<close>, \<open>sdiv32\<close> for the signed
  ones). A left shift \<open>x << n\<close> is \<open>push_bit n x\<close>. For a shift count below 32 that is
  the shift of the machine. C leaves a shift by 32 or more undefined (the shift
  instruction of the device gives \<open>0\<close>, one that takes the count modulo 32 does not);
  \<open>push_bit\<close> gives \<open>0\<close> there, and a theorem below that reaches such a count says so.
  A \<open>float\<close> that is only stored and read back is kept as its 32-bit pattern
  (\<open>0.0f\<close> is the pattern \<open>0\<close>).

  A subdivision depth is an \<open>int32_t\<close> that the source asserts to be non-negative
  (\<open>assert(depth >= 0)\<close>, \<open>assert(depth > 0)\<close>); it is a \<open>nat\<close> here. Where the source
  computes \<open>depth - 1\<close> it asserts \<open>depth > 0\<close> or has tested \<open>depth == 0\<close> before; on
  \<open>nat\<close>, \<open>0 - 1\<close> is \<open>0\<close>, so a function that subtracts is meant for \<open>depth >= 1\<close>.
\<close>

type_synonym int32 = "32 word"
type_synonym uint32 = "32 word"
type_synonym float32 = "32 word"

text \<open>
  A vertex point is three floats. The field names of the records below carry a prefix
  (\<open>cr_\<close>, \<open>he_\<close>, \<open>sr_\<close>, \<open>s_\<close>) where the source's name is also the name of a
  parameter or of a field of another struct.
\<close>

type_synonym cc_VertexPoint = "float32 \<times> float32 \<times> float32"

type_synonym cc_VertexUv = "float32 \<times> float32"

record cc_Crease =
  cr_nextID :: int32
  cr_prevID :: int32
  cr_sharpness :: float32

record cc_Halfedge =
  he_twinID :: int32
  he_nextID :: int32
  he_prevID :: int32
  he_vertexID :: int32
  he_uvID :: int32
  he_edgeID :: int32
  he_faceID :: int32

record cc_Halfedge_SemiRegular =
  sr_twinID :: int32
  sr_edgeID :: int32
  sr_vertexID :: int32

text \<open>The control mesh, with the fields that \<open>ccm_Create\<close> fills.\<close>

record cc_Mesh =
  vertexCount :: int32
  uvCount :: int32
  halfedgeCount :: int32
  edgeCount :: int32
  faceCount :: int32
  vertexToHalfedgeIDs :: "int32 list"
  edgeToHalfedgeIDs :: "int32 list"
  faceToHalfedgeIDs :: "int32 list"
  halfedges :: "cc_Halfedge list"
  creases :: "cc_Crease list"
  vertexPoints :: "cc_VertexPoint list"
  uvs :: "cc_VertexUv list"

text \<open>The subdivision hierarchy, with the fields that \<open>ccs_Create\<close> fills.\<close>

record cc_Subd =
  s_maxDepth :: nat
  s_halfedges :: "cc_Halfedge_SemiRegular list"
  s_creases :: "cc_Crease list"
  s_vertexPoints :: "cc_VertexPoint list"
  s_cage :: cc_Mesh

text \<open>
  C's signed division truncates towards zero; \<open>sdiv\<close> on \<open>int\<close> does the same.
\<close>

definition sdiv32 :: "int32 \<Rightarrow> int32 \<Rightarrow> int32" where
  "sdiv32 a b = word_of_int (sint a sdiv sint b)"

section \<open>Counts of the control mesh\<close>

definition ccm_FaceCount :: "cc_Mesh \<Rightarrow> int32" where
  "ccm_FaceCount mesh = faceCount mesh"

definition ccm_EdgeCount :: "cc_Mesh \<Rightarrow> int32" where
  "ccm_EdgeCount mesh = edgeCount mesh"

definition ccm_CreaseCount :: "cc_Mesh \<Rightarrow> int32" where
  "ccm_CreaseCount mesh = ccm_EdgeCount mesh"

definition ccm_HalfedgeCount :: "cc_Mesh \<Rightarrow> int32" where
  "ccm_HalfedgeCount mesh = halfedgeCount mesh"

definition ccm_VertexCount :: "cc_Mesh \<Rightarrow> int32" where
  "ccm_VertexCount mesh = vertexCount mesh"

definition ccm_UvCount :: "cc_Mesh \<Rightarrow> int32" where
  "ccm_UvCount mesh = uvCount mesh"

section \<open>Per-level counting functions\<close>

text \<open>
  The largest shift count of each function: \<open>(depth - 1) << 1\<close> for the faces,
  \<open>depth\<close> for the edges and the creases, \<open>depth << 1\<close> for the halfedges,
  \<open>depth - 1\<close> for the vertices.
\<close>

text \<open>\<open>return (H0 << ((depth - 1) << 1));\<close>\<close>

definition ccm_FaceCountAtDepth_Fast :: "cc_Mesh \<Rightarrow> nat \<Rightarrow> int32" where
  "ccm_FaceCountAtDepth_Fast cage depth =
     (let H0 = ccm_HalfedgeCount cage
      in push_bit (push_bit 1 (depth - 1)) H0)"

definition ccm_FaceCountAtDepth :: "cc_Mesh \<Rightarrow> nat \<Rightarrow> int32" where
  "ccm_FaceCountAtDepth cage depth =
     (if depth = 0 then ccm_FaceCount cage else ccm_FaceCountAtDepth_Fast cage depth)"

text \<open>
  \<open>tmp = ~(0xFFFFFFFF << depth); return ((E0 << 1) + (tmp * H0)) << (depth - 1);\<close>
\<close>

definition ccm_EdgeCountAtDepth_Fast :: "cc_Mesh \<Rightarrow> nat \<Rightarrow> int32" where
  "ccm_EdgeCountAtDepth_Fast cage depth =
     (let E0 = ccm_EdgeCount cage;
          H0 = ccm_HalfedgeCount cage;
          tmp = NOT (push_bit depth (0xFFFFFFFF :: uint32))
      in push_bit (depth - 1) (push_bit 1 E0 + tmp * H0))"

definition ccm_EdgeCountAtDepth :: "cc_Mesh \<Rightarrow> nat \<Rightarrow> int32" where
  "ccm_EdgeCountAtDepth cage depth =
     (if depth = 0 then ccm_EdgeCount cage else ccm_EdgeCountAtDepth_Fast cage depth)"

text \<open>
  \<open>return H0 << (depth << 1);\<close> The shift count is below 32 up to depth 15.
\<close>

definition ccm_HalfedgeCountAtDepth :: "cc_Mesh \<Rightarrow> nat \<Rightarrow> int32" where
  "ccm_HalfedgeCountAtDepth cage depth =
     (let H0 = ccm_HalfedgeCount cage
      in push_bit (push_bit 1 depth) H0)"

text \<open>\<open>return C0 << depth;\<close>\<close>

definition ccm_CreaseCountAtDepth :: "cc_Mesh \<Rightarrow> nat \<Rightarrow> int32" where
  "ccm_CreaseCountAtDepth cage depth =
     (let C0 = ccm_CreaseCount cage
      in push_bit depth C0)"

text \<open>
  \<open>tmp = ~(0xFFFFFFFF << (depth - 1)); return V1 + tmp * (E1 + tmp * F1);\<close>
\<close>

definition ccm_VertexCountAtDepth_Fast :: "cc_Mesh \<Rightarrow> nat \<Rightarrow> int32" where
  "ccm_VertexCountAtDepth_Fast cage depth =
     (let V0 = ccm_VertexCount cage;
          F0 = ccm_FaceCount cage;
          E0 = ccm_EdgeCount cage;
          H0 = ccm_HalfedgeCount cage;
          F1 = H0;
          E1 = 2 * E0 + H0;
          V1 = V0 + E0 + F0;
          tmp = NOT (push_bit (depth - 1) (0xFFFFFFFF :: uint32))
      in V1 + tmp * (E1 + tmp * F1))"

definition ccm_VertexCountAtDepth :: "cc_Mesh \<Rightarrow> nat \<Rightarrow> int32" where
  "ccm_VertexCountAtDepth cage depth =
     (if depth = 0 then ccm_VertexCount cage else ccm_VertexCountAtDepth_Fast cage depth)"

section \<open>The one-step rules of a subdivision step\<close>

text \<open>
  The reference the closed forms are compared with, written from the rules
  \<open>F' = H\<close>, \<open>E' = 2E + H\<close>, \<open>H' = 4H\<close>, \<open>C' = 2C\<close>, \<open>V' = V + E + F\<close> in the comments
  of the counting functions. The rules are stated over any commutative ring, so that
  they can be run in the program's 32-bit arithmetic and in the integers.
\<close>

record 'a level_counts =
  cnt_F :: 'a
  cnt_E :: 'a
  cnt_H :: 'a
  cnt_C :: 'a
  cnt_V :: 'a

definition quad_split_step :: "'a::comm_ring_1 level_counts \<Rightarrow> 'a level_counts" where
  "quad_split_step c =
     \<lparr>cnt_F = cnt_H c,
      cnt_E = 2 * cnt_E c + cnt_H c,
      cnt_H = 4 * cnt_H c,
      cnt_C = 2 * cnt_C c,
      cnt_V = cnt_V c + cnt_E c + cnt_F c\<rparr>"

text \<open>
  The base counts are the fields of the mesh, not what its accessors return; the cage
  has one crease per edge, \<open>C0 = E0\<close>.
\<close>

definition cage_counts :: "cc_Mesh \<Rightarrow> int32 level_counts" where
  "cage_counts cage =
     \<lparr>cnt_F = faceCount cage,
      cnt_E = edgeCount cage,
      cnt_H = halfedgeCount cage,
      cnt_C = edgeCount cage,
      cnt_V = vertexCount cage\<rparr>"

definition counts_at_depth :: "'a::comm_ring_1 level_counts \<Rightarrow> nat \<Rightarrow> 'a level_counts" where
  "counts_at_depth c0 d = (quad_split_step ^^ d) c0"

definition cage_counts_int :: "cc_Mesh \<Rightarrow> int level_counts" where
  "cage_counts_int cage =
     \<lparr>cnt_F = sint (faceCount cage),
      cnt_E = sint (edgeCount cage),
      cnt_H = sint (halfedgeCount cage),
      cnt_C = sint (edgeCount cage),
      cnt_V = sint (vertexCount cage)\<rparr>"

section \<open>Cumulative counting functions\<close>

text \<open>
  \<open>H1 = H0 << 2; tmp = ~(0xFFFFFFFF << (D << 1)); return (H1 * tmp) / 3;\<close>
  The product and the quotient are \<open>int32_t\<close>: the division is the signed one.
\<close>

definition ccs_CumulativeHalfedgeCountAtDepth :: "cc_Mesh \<Rightarrow> nat \<Rightarrow> int32" where
  "ccs_CumulativeHalfedgeCountAtDepth cage maxDepth =
     (let D = maxDepth;
          H0 = ccm_HalfedgeCount cage;
          H1 = push_bit 2 H0;
          tmp = NOT (push_bit (push_bit 1 D) (0xFFFFFFFF :: uint32))
      in sdiv32 (H1 * tmp) 3)"

text \<open>\<open>return ccs_CumulativeHalfedgeCountAtDepth(cage, depth) >> 2;\<close>\<close>

definition ccs_CumulativeFaceCountAtDepth :: "cc_Mesh \<Rightarrow> nat \<Rightarrow> int32" where
  "ccs_CumulativeFaceCountAtDepth cage depth =
     signed_drop_bit 2 (ccs_CumulativeHalfedgeCountAtDepth cage depth)"

text \<open>
  \<open>H1 = H0 << 2; E1 = (E0 << 1) + H0; A = ~(0xFFFFFFFF << D);
  return (A * (6 * E1 + A * H1 - H1)) / 6;\<close>
\<close>

definition ccs_CumulativeEdgeCountAtDepth :: "cc_Mesh \<Rightarrow> nat \<Rightarrow> int32" where
  "ccs_CumulativeEdgeCountAtDepth cage depth =
     (let H0 = ccm_HalfedgeCount cage;
          E0 = ccm_EdgeCount cage;
          H1 = push_bit 2 H0;
          E1 = push_bit 1 E0 + H0;
          D = depth;
          A = NOT (push_bit D (0xFFFFFFFF :: uint32))
      in sdiv32 (A * (6 * E1 + A * H1 - H1)) 6)"

text \<open>\<open>C1 = C0 << 1; tmp = ~(0xFFFFFFFF << D); return (C1 * tmp);\<close>\<close>

definition ccs_CumulativeCreaseCountAtDepth :: "cc_Mesh \<Rightarrow> nat \<Rightarrow> int32" where
  "ccs_CumulativeCreaseCountAtDepth cage maxDepth =
     (let D = maxDepth;
          C0 = ccm_CreaseCount cage;
          C1 = push_bit 1 C0;
          tmp = NOT (push_bit D (0xFFFFFFFF :: uint32))
      in C1 * tmp)"

text \<open>
  \<open>A = ~(0xFFFFFFFF << D); B = ~(0xFFFFFFFF << (D << 1)) / 3;
  return A * (E1 - (F1 << 1)) + B * F1 + D * (F1 - E1 + V1);\<close>
  The dividend of \<open>B\<close> is an \<open>unsigned int\<close> (the literal \<open>0xFFFFFFFF\<close> is one), so that
  division is the unsigned one; \<open>D\<close> enters the product as an \<open>int32_t\<close>.
\<close>

definition ccs_CumulativeVertexCountAtDepth :: "cc_Mesh \<Rightarrow> nat \<Rightarrow> int32" where
  "ccs_CumulativeVertexCountAtDepth cage depth =
     (let V0 = ccm_VertexCount cage;
          F0 = ccm_FaceCount cage;
          E0 = ccm_EdgeCount cage;
          H0 = ccm_HalfedgeCount cage;
          F1 = H0;
          E1 = 2 * E0 + H0;
          V1 = V0 + E0 + F0;
          D = depth;
          A = NOT (push_bit D (0xFFFFFFFF :: uint32));
          B = NOT (push_bit (push_bit 1 D) (0xFFFFFFFF :: uint32)) div 3
      in A * (E1 - push_bit 1 F1) + B * F1 + of_nat D * (F1 - E1 + V1))"

section \<open>The subdivision hierarchy\<close>

definition ccs_MaxDepth :: "cc_Subd \<Rightarrow> nat" where
  "ccs_MaxDepth subd = s_maxDepth subd"

definition ccs_CumulativeFaceCount :: "cc_Subd \<Rightarrow> int32" where
  "ccs_CumulativeFaceCount subd = ccs_CumulativeFaceCountAtDepth (s_cage subd) (ccs_MaxDepth subd)"

definition ccs_CumulativeEdgeCount :: "cc_Subd \<Rightarrow> int32" where
  "ccs_CumulativeEdgeCount subd = ccs_CumulativeEdgeCountAtDepth (s_cage subd) (ccs_MaxDepth subd)"

definition ccs_CumulativeHalfedgeCount :: "cc_Subd \<Rightarrow> int32" where
  "ccs_CumulativeHalfedgeCount subd =
     ccs_CumulativeHalfedgeCountAtDepth (s_cage subd) (ccs_MaxDepth subd)"

definition ccs_CumulativeCreaseCount :: "cc_Subd \<Rightarrow> int32" where
  "ccs_CumulativeCreaseCount subd =
     ccs_CumulativeCreaseCountAtDepth (s_cage subd) (ccs_MaxDepth subd)"

definition ccs_CumulativeVertexCount :: "cc_Subd \<Rightarrow> int32" where
  "ccs_CumulativeVertexCount subd =
     ccs_CumulativeVertexCountAtDepth (s_cage subd) (ccs_MaxDepth subd)"

text \<open>
  \<open>malloc(n * sizeof(T))\<close> gives room for \<open>n\<close> elements of \<open>T\<close>: a list of \<open>n\<close> elements
  here (none for a negative \<open>n\<close>). C leaves the contents indeterminate; the model
  fills the list with a fixed element, and nothing below depends on it.
\<close>

definition malloc_array :: "int32 \<Rightarrow> 'a \<Rightarrow> 'a list" where
  "malloc_array n a = replicate (nat (sint n)) a"

definition ccs_Create :: "cc_Mesh \<Rightarrow> nat \<Rightarrow> cc_Subd" where
  "ccs_Create cage maxDepth =
     (let halfedgeCount' = ccs_CumulativeHalfedgeCountAtDepth cage maxDepth;
          creaseCount' = ccs_CumulativeCreaseCountAtDepth cage maxDepth;
          vertexCount' = ccs_CumulativeVertexCountAtDepth cage maxDepth
      in \<lparr>s_maxDepth = maxDepth,
          s_halfedges = malloc_array halfedgeCount' \<lparr>sr_twinID = 0, sr_edgeID = 0, sr_vertexID = 0\<rparr>,
          s_creases = malloc_array creaseCount' \<lparr>cr_nextID = 0, cr_prevID = 0, cr_sharpness = 0\<rparr>,
          s_vertexPoints = malloc_array vertexCount' (0, 0, 0),
          s_cage = cage\<rparr>)"

section \<open>Array reads\<close>

text \<open>
  An index is an \<open>int32_t\<close>. A read outside the array is undefined in C: it is \<open>None\<close>
  here, and every accessor that reads an array returns an option.
\<close>

definition array_read :: "'a list \<Rightarrow> int32 \<Rightarrow> 'a option" where
  "array_read xs i =
     (if 0 \<le>s i \<and> nat (sint i) < length xs then Some (xs ! nat (sint i)) else None)"

text \<open>
  Modelled from the spec: the element accessors \<open>ccm__Halfedge\<close>, \<open>ccm__Crease\<close>,
  \<open>ccs__Halfedge\<close> and \<open>ccs__Crease\<close> are declared in \<open>Mesh.h\<close>, which is not among the
  sources. The spec: the accessors of the control mesh are "O(1) array indexations";
  those of the hierarchy "compute the stride = cumulative count through \<open>depth-1\<close>
  and index \<open>stride + localID\<close>".
\<close>

definition ccm__Halfedge :: "cc_Mesh \<Rightarrow> int32 \<Rightarrow> cc_Halfedge option" where
  "ccm__Halfedge mesh halfedgeID = array_read (halfedges mesh) halfedgeID"

definition ccm__Crease :: "cc_Mesh \<Rightarrow> int32 \<Rightarrow> cc_Crease option" where
  "ccm__Crease mesh edgeID = array_read (creases mesh) edgeID"

definition ccs__Halfedge :: "cc_Subd \<Rightarrow> int32 \<Rightarrow> nat \<Rightarrow> cc_Halfedge_SemiRegular option" where
  "ccs__Halfedge subd halfedgeID depth =
     (let stride = ccs_CumulativeHalfedgeCountAtDepth (s_cage subd) (depth - 1)
      in array_read (s_halfedges subd) (stride + halfedgeID))"

definition ccs__Crease :: "cc_Subd \<Rightarrow> int32 \<Rightarrow> nat \<Rightarrow> cc_Crease option" where
  "ccs__Crease subd edgeID depth =
     (let stride = ccs_CumulativeCreaseCountAtDepth (s_cage subd) (depth - 1)
      in array_read (s_creases subd) (stride + edgeID))"

section \<open>Accessors of the control mesh\<close>

definition ccm_HalfedgeTwinID :: "cc_Mesh \<Rightarrow> int32 \<Rightarrow> int32 option" where
  "ccm_HalfedgeTwinID mesh halfedgeID = map_option he_twinID (ccm__Halfedge mesh halfedgeID)"

definition ccm_HalfedgeNextID :: "cc_Mesh \<Rightarrow> int32 \<Rightarrow> int32 option" where
  "ccm_HalfedgeNextID mesh halfedgeID = map_option he_nextID (ccm__Halfedge mesh halfedgeID)"

definition ccm_HalfedgePrevID :: "cc_Mesh \<Rightarrow> int32 \<Rightarrow> int32 option" where
  "ccm_HalfedgePrevID mesh halfedgeID = map_option he_prevID (ccm__Halfedge mesh halfedgeID)"

definition ccm_EdgeToHalfedgeID :: "cc_Mesh \<Rightarrow> int32 \<Rightarrow> int32 option" where
  "ccm_EdgeToHalfedgeID mesh edgeID = array_read (edgeToHalfedgeIDs mesh) edgeID"

text \<open>\<open>return halfedgeID >> 2;\<close> on an \<open>int32_t\<close>: the arithmetic shift.\<close>

definition ccm_HalfedgeFaceID_Quad :: "int32 \<Rightarrow> int32" where
  "ccm_HalfedgeFaceID_Quad halfedgeID = signed_drop_bit 2 halfedgeID"

text \<open>
  Modelled from the spec: \<open>ccm__ScrollFaceHalfedgeID_Quad\<close> is declared in \<open>Mesh.h\<close>,
  which is not among the sources. The spec: "next/prev within a face of 4 are obtained
  by incrementing/decrementing the low 2 bits modulo 4 while keeping the face's high
  bits fixed ("scroll" within the 4-run)".
\<close>

definition ccm__ScrollFaceHalfedgeID_Quad :: "int32 \<Rightarrow> int32 \<Rightarrow> int32" where
  "ccm__ScrollFaceHalfedgeID_Quad halfedgeID direction =
     (let base = 3;
          localID = (halfedgeID AND base) + direction
      in (halfedgeID AND NOT base) OR (localID AND base))"

definition ccm_HalfedgeNextID_Quad :: "int32 \<Rightarrow> int32" where
  "ccm_HalfedgeNextID_Quad halfedgeID = ccm__ScrollFaceHalfedgeID_Quad halfedgeID 1"

definition ccm_HalfedgePrevID_Quad :: "int32 \<Rightarrow> int32" where
  "ccm_HalfedgePrevID_Quad halfedgeID = ccm__ScrollFaceHalfedgeID_Quad halfedgeID (- 1)"

definition ccm_FaceToHalfedgeID_Quad :: "int32 \<Rightarrow> int32" where
  "ccm_FaceToHalfedgeID_Quad faceID = push_bit 2 faceID"

text \<open>\<open>return twinID >= 0 ? ccm_HalfedgeNextID(mesh, twinID) : -1;\<close>\<close>

definition ccm_NextVertexHalfedgeID :: "cc_Mesh \<Rightarrow> int32 \<Rightarrow> int32 option" where
  "ccm_NextVertexHalfedgeID mesh halfedgeID =
     (case ccm_HalfedgeTwinID mesh halfedgeID of
        None \<Rightarrow> None
      | Some twinID \<Rightarrow> if 0 \<le>s twinID then ccm_HalfedgeNextID mesh twinID else Some (- 1))"

definition ccm_PrevVertexHalfedgeID :: "cc_Mesh \<Rightarrow> int32 \<Rightarrow> int32 option" where
  "ccm_PrevVertexHalfedgeID mesh halfedgeID =
     (case ccm_HalfedgePrevID mesh halfedgeID of
        None \<Rightarrow> None
      | Some prevID \<Rightarrow> ccm_HalfedgeTwinID mesh prevID)"

section \<open>Accessors of the subdivision hierarchy\<close>

definition ccs_CreaseSharpness_Fast :: "cc_Subd \<Rightarrow> int32 \<Rightarrow> nat \<Rightarrow> float32 option" where
  "ccs_CreaseSharpness_Fast subd edgeID depth = map_option cr_sharpness (ccs__Crease subd edgeID depth)"

definition ccs_CreaseSharpness :: "cc_Subd \<Rightarrow> int32 \<Rightarrow> nat \<Rightarrow> float32 option" where
  "ccs_CreaseSharpness subd edgeID depth =
     (let creaseCount = ccm_CreaseCountAtDepth (s_cage subd) depth
      in if edgeID <s creaseCount then ccs_CreaseSharpness_Fast subd edgeID depth
         else Some 0)"

definition ccs_CreaseNextID_Fast :: "cc_Subd \<Rightarrow> int32 \<Rightarrow> nat \<Rightarrow> int32 option" where
  "ccs_CreaseNextID_Fast subd edgeID depth = map_option cr_nextID (ccs__Crease subd edgeID depth)"

definition ccs_CreaseNextID :: "cc_Subd \<Rightarrow> int32 \<Rightarrow> nat \<Rightarrow> int32 option" where
  "ccs_CreaseNextID subd edgeID depth =
     (let creaseCount = ccm_CreaseCountAtDepth (s_cage subd) depth
      in if edgeID <s creaseCount then ccs_CreaseNextID_Fast subd edgeID depth
         else Some edgeID)"

definition ccs_CreasePrevID_Fast :: "cc_Subd \<Rightarrow> int32 \<Rightarrow> nat \<Rightarrow> int32 option" where
  "ccs_CreasePrevID_Fast subd edgeID depth = map_option cr_prevID (ccs__Crease subd edgeID depth)"

definition ccs_CreasePrevID :: "cc_Subd \<Rightarrow> int32 \<Rightarrow> nat \<Rightarrow> int32 option" where
  "ccs_CreasePrevID subd edgeID depth =
     (let creaseCount = ccm_CreaseCountAtDepth (s_cage subd) depth
      in if edgeID <s creaseCount then ccs_CreasePrevID_Fast subd edgeID depth
         else Some edgeID)"

definition ccs_HalfedgeVertexID :: "cc_Subd \<Rightarrow> int32 \<Rightarrow> nat \<Rightarrow> int32 option" where
  "ccs_HalfedgeVertexID subd halfedgeID depth =
     map_option sr_vertexID (ccs__Halfedge subd halfedgeID depth)"

definition ccs_HalfedgeTwinID :: "cc_Subd \<Rightarrow> int32 \<Rightarrow> nat \<Rightarrow> int32 option" where
  "ccs_HalfedgeTwinID subd halfedgeID depth =
     map_option sr_twinID (ccs__Halfedge subd halfedgeID depth)"

definition ccs_HalfedgeEdgeID :: "cc_Subd \<Rightarrow> int32 \<Rightarrow> nat \<Rightarrow> int32 option" where
  "ccs_HalfedgeEdgeID subd halfedgeID depth =
     map_option sr_edgeID (ccs__Halfedge subd halfedgeID depth)"

text \<open>The next three ignore \<open>subd\<close> and \<open>depth\<close> (\<open>(void)subd; (void)depth;\<close>).\<close>

definition ccs_HalfedgeNextID :: "cc_Subd \<Rightarrow> int32 \<Rightarrow> nat \<Rightarrow> int32" where
  "ccs_HalfedgeNextID subd halfedgeID depth = ccm_HalfedgeNextID_Quad halfedgeID"

definition ccs_HalfedgePrevID :: "cc_Subd \<Rightarrow> int32 \<Rightarrow> nat \<Rightarrow> int32" where
  "ccs_HalfedgePrevID subd halfedgeID depth = ccm_HalfedgePrevID_Quad halfedgeID"

definition ccs_HalfedgeFaceID :: "cc_Subd \<Rightarrow> int32 \<Rightarrow> nat \<Rightarrow> int32" where
  "ccs_HalfedgeFaceID subd halfedgeID depth = ccm_HalfedgeFaceID_Quad halfedgeID"

text \<open>
  \<open>prevID = ccs_HalfedgePrevID(subd, halfedgeID, depth);
  return ccs_HalfedgeTwinID(subd, prevID, depth);\<close>
\<close>

definition ccs_PrevVertexHalfedgeID :: "cc_Subd \<Rightarrow> int32 \<Rightarrow> nat \<Rightarrow> int32 option" where
  "ccs_PrevVertexHalfedgeID subd halfedgeID depth =
     (let prevID = ccs_HalfedgePrevID subd halfedgeID depth
      in ccs_HalfedgeTwinID subd prevID depth)"

text \<open>
  \<open>twinID = ccs_HalfedgeTwinID(subd, halfedgeID, depth);
  return ccs_HalfedgeNextID(subd, twinID, depth);\<close>
\<close>

definition ccs_NextVertexHalfedgeID :: "cc_Subd \<Rightarrow> int32 \<Rightarrow> nat \<Rightarrow> int32 option" where
  "ccs_NextVertexHalfedgeID subd halfedgeID depth =
     (case ccs_HalfedgeTwinID subd halfedgeID depth of
        None \<Rightarrow> None
      | Some twinID \<Rightarrow> Some (ccs_HalfedgeNextID subd twinID depth))"

section \<open>Edge to halfedge mapping\<close>

text \<open>\<open>cc__Max\<close> of Utilities.h: \<open>return a > b ? a : b;\<close>\<close>

definition cc__Max :: "int32 \<Rightarrow> int32 \<Rightarrow> int32" where
  "cc__Max a b = (if b <s a then a else b)"

text \<open>
  The non-recursive version of \<open>ccs_EdgeToHalfedgeID\<close>, the one that is compiled.
  Its first loop ("build heap") runs \<open>heapDepth\<close> from \<open>depth\<close> down while
  \<open>heapDepth > 1\<close>; the function below is that loop, from the state
  \<open>(heapDepth, heap, edgeID)\<close> to the state \<open>(heap, edgeID, heapDepth, edgeHalfedgeID)\<close>
  it leaves. The \<open>break\<close> of the spoke band leaves \<open>heapDepth > 1\<close>.
\<close>

fun ccs_EdgeToHalfedgeID_build ::
  "cc_Mesh \<Rightarrow> nat \<Rightarrow> uint32 \<Rightarrow> int32 \<Rightarrow> uint32 \<times> int32 \<times> nat \<times> int32" where
  "ccs_EdgeToHalfedgeID_build cage (Suc (Suc n)) heap edgeID =
     (let edgeCount = ccm_EdgeCountAtDepth_Fast cage (Suc n)
      in if 2 * edgeCount \<le>s edgeID
         then (let halfedgeID = edgeID - 2 * edgeCount;
                   nextID = ccm_HalfedgeNextID_Quad halfedgeID
               in (heap, edgeID, Suc (Suc n), cc__Max (4 * halfedgeID + 1) (4 * nextID + 2)))
         else ccs_EdgeToHalfedgeID_build cage (Suc n)
                (push_bit 1 heap OR (edgeID AND 1)) (signed_drop_bit 1 edgeID))"
| "ccs_EdgeToHalfedgeID_build cage heapDepth heap edgeID = (heap, edgeID, heapDepth, 0)"

text \<open>The second loop ("read heap"): \<open>while (heap > 1u) { ...; heap >>= 1; }\<close>.\<close>

function ccs_EdgeToHalfedgeID_read :: "uint32 \<Rightarrow> int32 \<Rightarrow> int32" where
  "ccs_EdgeToHalfedgeID_read heap edgeHalfedgeID =
     (if 1 < heap
      then ccs_EdgeToHalfedgeID_read (drop_bit 1 heap)
             (if heap AND 1 = 1
              then (let nextID = ccm_HalfedgeNextID_Quad edgeHalfedgeID in 4 * nextID + 3)
              else 4 * edgeHalfedgeID + 0)
      else edgeHalfedgeID)"
  by pat_completeness auto
termination
proof (relation "measure (\<lambda>(heap, r). unat heap)")
  show "wf (measure (\<lambda>(heap :: uint32, r :: int32). unat heap))" by simp
next
  fix heap :: uint32 and edgeHalfedgeID :: int32
  assume "1 < heap"
  then have "0 < unat heap" by (simp add: word_less_nat_alt)
  then have "unat heap div 2 < unat heap" by simp
  then show "((drop_bit 1 heap,
         if heap AND 1 = 1 then let nextID = ccm_HalfedgeNextID_Quad edgeHalfedgeID in 4 * nextID + 3
         else 4 * edgeHalfedgeID + 0),
        heap, edgeHalfedgeID) \<in> measure (\<lambda>(heap, r). unat heap)"
    by (simp add: unat_drop_bit_eq drop_bit_eq_div unat_div)
qed

declare ccs_EdgeToHalfedgeID_read.simps [simp del]

text \<open>
  \<open>ccs__EdgeToHalfedgeID_First\<close>, which gives the halfedge at depth 1, is declared in
  \<open>Mesh.h\<close>, which is not among the sources: it is the parameter \<open>first\<close>, and the
  theorems below hold for every \<open>first\<close>. It reads the arrays of the control mesh, so
  it returns an option.
\<close>

definition ccs_EdgeToHalfedgeID ::
  "(cc_Mesh \<Rightarrow> int32 \<Rightarrow> int32 option) \<Rightarrow> cc_Subd \<Rightarrow> int32 \<Rightarrow> nat \<Rightarrow> int32 option" where
  "ccs_EdgeToHalfedgeID first subd edgeID depth =
     (case ccs_EdgeToHalfedgeID_build (s_cage subd) depth 1 edgeID of
        (heap, edgeID', heapDepth, edgeHalfedgeID) \<Rightarrow>
          (case (if heapDepth = 1 then first (s_cage subd) edgeID' else Some edgeHalfedgeID) of
             None \<Rightarrow> None
           | Some edgeHalfedgeID' \<Rightarrow> Some (ccs_EdgeToHalfedgeID_read heap edgeHalfedgeID')))"

text \<open>
  The recursive version, which the source keeps under \<open>#if 0\<close>. It chooses between
  \<open>4 * nextID + 3\<close> and \<open>4 * halfedgeID + 0\<close> by the band of \<open>edgeID\<close>
  (\<open>edgeID >= edgeCount\<close>). Its \<open>ccm_NextFaceHalfedgeID_Quad\<close> is defined nowhere in the
  sources; the compiled version calls \<open>ccm_HalfedgeNextID_Quad\<close> in its place.
\<close>

fun ccs_EdgeToHalfedgeID_recursive ::
  "(cc_Mesh \<Rightarrow> int32 \<Rightarrow> int32 option) \<Rightarrow> cc_Subd \<Rightarrow> int32 \<Rightarrow> nat \<Rightarrow> int32 option" where
  "ccs_EdgeToHalfedgeID_recursive first subd edgeID (Suc (Suc n)) =
     (let edgeCount = ccm_EdgeCountAtDepth_Fast (s_cage subd) (Suc n)
      in if 2 * edgeCount \<le>s edgeID
         then (let halfedgeID = edgeID - 2 * edgeCount;
                   nextID = ccm_HalfedgeNextID_Quad halfedgeID
               in Some (cc__Max (4 * halfedgeID + 1) (4 * nextID + 2)))
         else if edgeCount \<le>s edgeID
         then (case ccs_EdgeToHalfedgeID_recursive first subd (signed_drop_bit 1 edgeID) (Suc n) of
                 None \<Rightarrow> None
               | Some halfedgeID \<Rightarrow>
                   (let nextID = ccm_HalfedgeNextID_Quad halfedgeID in Some (4 * nextID + 3)))
         else (case ccs_EdgeToHalfedgeID_recursive first subd (signed_drop_bit 1 edgeID) (Suc n) of
                 None \<Rightarrow> None
               | Some halfedgeID \<Rightarrow> Some (4 * halfedgeID + 0)))"
| "ccs_EdgeToHalfedgeID_recursive first subd edgeID depth = first (s_cage subd) edgeID"

text \<open>
  The same recursion with the test the compiled version records in its path word: the
  lowest bit of \<open>edgeID\<close> (\<open>edgeID & 1\<close>) in place of the band.
\<close>

fun ccs_EdgeToHalfedgeID_by_parity ::
  "(cc_Mesh \<Rightarrow> int32 \<Rightarrow> int32 option) \<Rightarrow> cc_Subd \<Rightarrow> int32 \<Rightarrow> nat \<Rightarrow> int32 option" where
  "ccs_EdgeToHalfedgeID_by_parity first subd edgeID (Suc (Suc n)) =
     (let edgeCount = ccm_EdgeCountAtDepth_Fast (s_cage subd) (Suc n)
      in if 2 * edgeCount \<le>s edgeID
         then (let halfedgeID = edgeID - 2 * edgeCount;
                   nextID = ccm_HalfedgeNextID_Quad halfedgeID
               in Some (cc__Max (4 * halfedgeID + 1) (4 * nextID + 2)))
         else if edgeID AND 1 = 1
         then (case ccs_EdgeToHalfedgeID_by_parity first subd (signed_drop_bit 1 edgeID) (Suc n) of
                 None \<Rightarrow> None
               | Some halfedgeID \<Rightarrow>
                   (let nextID = ccm_HalfedgeNextID_Quad halfedgeID in Some (4 * nextID + 3)))
         else (case ccs_EdgeToHalfedgeID_by_parity first subd (signed_drop_bit 1 edgeID) (Suc n) of
                 None \<Rightarrow> None
               | Some halfedgeID \<Rightarrow> Some (4 * halfedgeID + 0)))"
| "ccs_EdgeToHalfedgeID_by_parity first subd edgeID depth = first (s_cage subd) edgeID"

section \<open>Counts in the integers\<close>

text \<open>
  The counts of level \<open>d\<close> as numbers: the one-step rules run \<open>d\<close> times in the
  integers from the base counts of the cage. Nothing wraps here; the theorems on the
  cumulative functions say in these terms which cages and depths the 32-bit
  arithmetic of the source can hold.
\<close>

definition int_counts_at_depth :: "cc_Mesh \<Rightarrow> nat \<Rightarrow> int level_counts" where
  "int_counts_at_depth cage d = counts_at_depth (cage_counts_int cage) d"

text \<open>The numbers an \<open>int32_t\<close> holds.\<close>

definition fits_int32 :: "int \<Rightarrow> bool" where
  "fits_int32 n \<longleftrightarrow> - (2 ^ 31) \<le> n \<and> n < 2 ^ 31"

definition cage_nonneg :: "cc_Mesh \<Rightarrow> bool" where
  "cage_nonneg cage \<longleftrightarrow>
     0 \<le> sint (vertexCount cage) \<and> 0 \<le> sint (edgeCount cage) \<and>
     0 \<le> sint (halfedgeCount cage) \<and> 0 \<le> sint (faceCount cage)"

section \<open>A control mesh to compute with\<close>

text \<open>
  One quad: 4 vertices, 4 edges, 4 halfedges, 1 face (the cage the spec names for the
  resolver, \<open>V0=4, E0=4, H0=4, F0=1\<close>). Every halfedge lies on the boundary, so every
  twin is \<open>-1\<close>. Edge 0 is a crease of sharpness \<open>2.0f\<close> (the pattern \<open>0x40000000\<close>).
\<close>

definition quad_cage :: cc_Mesh where
  "quad_cage =
     \<lparr>vertexCount = 4, uvCount = 4, halfedgeCount = 4, edgeCount = 4, faceCount = 1,
      vertexToHalfedgeIDs = [0, 1, 2, 3],
      edgeToHalfedgeIDs = [0, 1, 2, 3],
      faceToHalfedgeIDs = [0],
      halfedges =
        [\<lparr>he_twinID = - 1, he_nextID = 1, he_prevID = 3, he_vertexID = 0, he_uvID = 0,
          he_edgeID = 0, he_faceID = 0\<rparr>,
         \<lparr>he_twinID = - 1, he_nextID = 2, he_prevID = 0, he_vertexID = 1, he_uvID = 1,
          he_edgeID = 1, he_faceID = 0\<rparr>,
         \<lparr>he_twinID = - 1, he_nextID = 3, he_prevID = 1, he_vertexID = 2, he_uvID = 2,
          he_edgeID = 2, he_faceID = 0\<rparr>,
         \<lparr>he_twinID = - 1, he_nextID = 0, he_prevID = 2, he_vertexID = 3, he_uvID = 3,
          he_edgeID = 3, he_faceID = 0\<rparr>],
      creases =
        [\<lparr>cr_nextID = 0, cr_prevID = 0, cr_sharpness = 0x40000000\<rparr>,
         \<lparr>cr_nextID = 1, cr_prevID = 1, cr_sharpness = 0\<rparr>,
         \<lparr>cr_nextID = 2, cr_prevID = 2, cr_sharpness = 0\<rparr>,
         \<lparr>cr_nextID = 3, cr_prevID = 3, cr_sharpness = 0\<rparr>],
      vertexPoints = [(0, 0, 0), (0, 0, 0), (0, 0, 0), (0, 0, 0)],
      uvs = [(0, 0), (0, 0), (0, 0), (0, 0)]\<rparr>"

text \<open>
  Two triangles glued along their three edges: 3 vertices, 3 edges, 6 halfedges,
  2 faces, no boundary.
\<close>

definition pillow_cage :: cc_Mesh where
  "pillow_cage =
     \<lparr>vertexCount = 3, uvCount = 3, halfedgeCount = 6, edgeCount = 3, faceCount = 2,
      vertexToHalfedgeIDs = [0, 1, 2],
      edgeToHalfedgeIDs = [0, 1, 2],
      faceToHalfedgeIDs = [0, 3],
      halfedges =
        [\<lparr>he_twinID = 3, he_nextID = 1, he_prevID = 2, he_vertexID = 0, he_uvID = 0,
          he_edgeID = 0, he_faceID = 0\<rparr>,
         \<lparr>he_twinID = 5, he_nextID = 2, he_prevID = 0, he_vertexID = 1, he_uvID = 1,
          he_edgeID = 1, he_faceID = 0\<rparr>,
         \<lparr>he_twinID = 4, he_nextID = 0, he_prevID = 1, he_vertexID = 2, he_uvID = 2,
          he_edgeID = 2, he_faceID = 0\<rparr>,
         \<lparr>he_twinID = 0, he_nextID = 4, he_prevID = 5, he_vertexID = 1, he_uvID = 1,
          he_edgeID = 0, he_faceID = 1\<rparr>,
         \<lparr>he_twinID = 2, he_nextID = 5, he_prevID = 3, he_vertexID = 0, he_uvID = 0,
          he_edgeID = 2, he_faceID = 1\<rparr>,
         \<lparr>he_twinID = 1, he_nextID = 3, he_prevID = 4, he_vertexID = 2, he_uvID = 2,
          he_edgeID = 1, he_faceID = 1\<rparr>],
      creases =
        [\<lparr>cr_nextID = 0, cr_prevID = 0, cr_sharpness = 0\<rparr>,
         \<lparr>cr_nextID = 1, cr_prevID = 1, cr_sharpness = 0\<rparr>,
         \<lparr>cr_nextID = 2, cr_prevID = 2, cr_sharpness = 0\<rparr>],
      vertexPoints = [(0, 0, 0), (0, 0, 0), (0, 0, 0)],
      uvs = [(0, 0), (0, 0), (0, 0)]\<rparr>"

text \<open>
  The hierarchy of the quad with \<open>maxDepth = 1\<close>, filled with level 1 of the quad:
  16 halfedges (4 per cage halfedge), 8 creases (2 per cage edge; the two halves of
  edge 0 have sharpness \<open>1.0f\<close>, the pattern \<open>0x3F800000\<close>) and 9 vertex points. The
  halfedges \<open>4h\<close> and \<open>4h + 3\<close> lie on the boundary: their twins are negative.
\<close>

definition quad_subd1 :: cc_Subd where
  "quad_subd1 =
     \<lparr>s_maxDepth = 1,
      s_halfedges =
        [\<lparr>sr_twinID = - 1, sr_edgeID = 0, sr_vertexID = 0\<rparr>,
         \<lparr>sr_twinID = 6, sr_edgeID = 8, sr_vertexID = 4\<rparr>,
         \<lparr>sr_twinID = 13, sr_edgeID = 11, sr_vertexID = 8\<rparr>,
         \<lparr>sr_twinID = - 4, sr_edgeID = 7, sr_vertexID = 7\<rparr>,
         \<lparr>sr_twinID = - 1, sr_edgeID = 2, sr_vertexID = 1\<rparr>,
         \<lparr>sr_twinID = 10, sr_edgeID = 9, sr_vertexID = 5\<rparr>,
         \<lparr>sr_twinID = 1, sr_edgeID = 8, sr_vertexID = 8\<rparr>,
         \<lparr>sr_twinID = - 4, sr_edgeID = 1, sr_vertexID = 4\<rparr>,
         \<lparr>sr_twinID = - 1, sr_edgeID = 4, sr_vertexID = 2\<rparr>,
         \<lparr>sr_twinID = 14, sr_edgeID = 10, sr_vertexID = 6\<rparr>,
         \<lparr>sr_twinID = 5, sr_edgeID = 9, sr_vertexID = 8\<rparr>,
         \<lparr>sr_twinID = - 4, sr_edgeID = 3, sr_vertexID = 5\<rparr>,
         \<lparr>sr_twinID = - 1, sr_edgeID = 6, sr_vertexID = 3\<rparr>,
         \<lparr>sr_twinID = 2, sr_edgeID = 11, sr_vertexID = 7\<rparr>,
         \<lparr>sr_twinID = 9, sr_edgeID = 10, sr_vertexID = 8\<rparr>,
         \<lparr>sr_twinID = - 4, sr_edgeID = 5, sr_vertexID = 6\<rparr>],
      s_creases =
        [\<lparr>cr_nextID = 1, cr_prevID = 0, cr_sharpness = 0x3F800000\<rparr>,
         \<lparr>cr_nextID = 1, cr_prevID = 0, cr_sharpness = 0x3F800000\<rparr>,
         \<lparr>cr_nextID = 3, cr_prevID = 2, cr_sharpness = 0\<rparr>,
         \<lparr>cr_nextID = 3, cr_prevID = 2, cr_sharpness = 0\<rparr>,
         \<lparr>cr_nextID = 5, cr_prevID = 4, cr_sharpness = 0\<rparr>,
         \<lparr>cr_nextID = 5, cr_prevID = 4, cr_sharpness = 0\<rparr>,
         \<lparr>cr_nextID = 7, cr_prevID = 6, cr_sharpness = 0\<rparr>,
         \<lparr>cr_nextID = 7, cr_prevID = 6, cr_sharpness = 0\<rparr>],
      s_vertexPoints =
        [(0, 0, 0), (0, 0, 0), (0, 0, 0), (0, 0, 0), (0, 0, 0), (0, 0, 0), (0, 0, 0),
         (0, 0, 0), (0, 0, 0)],
      s_cage = quad_cage\<rparr>"

section \<open>The path the resolver records\<close>

text \<open>
  Modelled from the spec: \<open>ccs__EdgeToHalfedgeID_First\<close> is declared in \<open>Mesh.h\<close>, which
  is not among the sources. The spec: at level 1 the resolver starts from "the cage's
  own edge-to-halfedge map composed with one subdivision step", the step being the one
  of the three bands \<open>[0, E)\<close>, \<open>[E, 2E)\<close>, \<open>[2E, 2E + H)\<close>. It is used below only as a
  value for the parameter \<open>first\<close> where a theorem is evaluated on a concrete mesh.
\<close>

definition ccs__EdgeToHalfedgeID_First :: "cc_Mesh \<Rightarrow> int32 \<Rightarrow> int32 option" where
  "ccs__EdgeToHalfedgeID_First cage edgeID =
     (let edgeCount = ccm_EdgeCount cage
      in if 2 * edgeCount \<le>s edgeID
         then (let halfedgeID = edgeID - 2 * edgeCount
               in case ccm_HalfedgeNextID cage halfedgeID of
                    None \<Rightarrow> None
                  | Some nextID \<Rightarrow> Some (cc__Max (4 * halfedgeID + 1) (4 * nextID + 2)))
         else if edgeCount \<le>s edgeID
         then (case ccm_EdgeToHalfedgeID cage (signed_drop_bit 1 edgeID) of
                 None \<Rightarrow> None
               | Some halfedgeID \<Rightarrow>
                   (case ccm_HalfedgeNextID cage halfedgeID of
                      None \<Rightarrow> None
                    | Some nextID \<Rightarrow> Some (4 * nextID + 3)))
         else (case ccm_EdgeToHalfedgeID cage (signed_drop_bit 1 edgeID) of
                 None \<Rightarrow> None
               | Some halfedgeID \<Rightarrow> Some (4 * halfedgeID + 0)))"

text \<open>
  What the first loop of \<open>ccs_EdgeToHalfedgeID\<close> does, read off the same loop without
  the 32-bit word: the bits \<open>edgeID & 1\<close> in the order in which the loop shifts them into
  \<open>heap\<close>, and the halfedge id the second loop starts from (the closed form of the
  spoke band, or \<open>first\<close> at level 1; \<open>0\<close> for depth 0, where neither is reached).
\<close>

fun ccs_EdgeToHalfedgeID_path :: "cc_Mesh \<Rightarrow> nat \<Rightarrow> int32 \<Rightarrow> bool list" where
  "ccs_EdgeToHalfedgeID_path cage (Suc (Suc n)) edgeID =
     (let edgeCount = ccm_EdgeCountAtDepth_Fast cage (Suc n)
      in if 2 * edgeCount \<le>s edgeID then []
         else (edgeID AND 1 = 1) # ccs_EdgeToHalfedgeID_path cage (Suc n) (signed_drop_bit 1 edgeID))"
| "ccs_EdgeToHalfedgeID_path cage heapDepth edgeID = []"

fun ccs_EdgeToHalfedgeID_root ::
  "(cc_Mesh \<Rightarrow> int32 \<Rightarrow> int32 option) \<Rightarrow> cc_Mesh \<Rightarrow> nat \<Rightarrow> int32 \<Rightarrow> int32 option" where
  "ccs_EdgeToHalfedgeID_root first cage (Suc (Suc n)) edgeID =
     (let edgeCount = ccm_EdgeCountAtDepth_Fast cage (Suc n)
      in if 2 * edgeCount \<le>s edgeID
         then (let halfedgeID = edgeID - 2 * edgeCount;
                   nextID = ccm_HalfedgeNextID_Quad halfedgeID
               in Some (cc__Max (4 * halfedgeID + 1) (4 * nextID + 2)))
         else ccs_EdgeToHalfedgeID_root first cage (Suc n) (signed_drop_bit 1 edgeID))"
| "ccs_EdgeToHalfedgeID_root first cage (Suc 0) edgeID = first cage edgeID"
| "ccs_EdgeToHalfedgeID_root first cage 0 edgeID = Some 0"

text \<open>
  One turn of the second loop, for the bit it reads; all the turns for a list of bits,
  the last recorded bit first; and the number whose binary digits are the sentinel
  \<open>1\<close> followed by the recorded bits, which is \<open>heap\<close> when no bit has left the word.
\<close>

definition path_step :: "bool \<Rightarrow> int32 \<Rightarrow> int32" where
  "path_step b edgeHalfedgeID =
     (if b then (let nextID = ccm_HalfedgeNextID_Quad edgeHalfedgeID in 4 * nextID + 3)
      else 4 * edgeHalfedgeID + 0)"

definition replay_path :: "bool list \<Rightarrow> int32 \<Rightarrow> int32" where
  "replay_path bits edgeHalfedgeID = foldr path_step bits edgeHalfedgeID"

definition heap_of_path :: "bool list \<Rightarrow> nat" where
  "heap_of_path bits = foldl (\<lambda>h b. 2 * h + of_bool b) 1 bits"


section \<open>Floats as numbers and the uv codec (cuda-rewrite/Utilities.h)\<close>

text \<open>
  \<open>Mesh.cpp\<close> only stores and copies floats, and there a float is its bit pattern.
  \<open>cc__EncodeUv\<close> and \<open>cc__DecodeUv\<close> compute with floats: here a \<open>float\<close> is the real
  number it stands for, and an operation on floats is the exact operation followed by
  \<open>binary32_round\<close>, the rounding of IEEE 754 to the nearest binary32 number, ties to the
  even significand: 24 significant bits, the exponent of the leading bit not below
  \<open>-126\<close> (below it the subnormal numbers, multiples of \<open>2 ^ -149\<close>). This is what
  \<open>*\<close>, \<open>/\<close> and the conversion from \<open>uint32_t\<close> do on the device when the file is
  compiled without \<open>-use_fast_math\<close>. A result beyond the largest binary32 number is an
  infinity in IEEE 754 and a real of at least \<open>2 ^ 127\<close> here; the codec converts it to
  \<open>uint32_t\<close>, which is undefined in both readings.
\<close>

definition round_ties_to_even :: "real \<Rightarrow> int" where
  "round_ties_to_even y =
     (let n = \<lfloor>y\<rfloor>
      in if y - of_int n < 1 / 2 then n
         else if 1 / 2 < y - of_int n then n + 1
         else if even n then n else n + 1)"

definition binary32_exponent :: "real \<Rightarrow> int" where
  "binary32_exponent x = max (- 126) \<lfloor>log 2 \<bar>x\<bar>\<rfloor>"

text \<open>The distance of two neighbouring binary32 numbers around \<open>x\<close>.\<close>

definition binary32_ulp :: "real \<Rightarrow> real" where
  "binary32_ulp x = 2 powr (of_int (binary32_exponent x) - 23)"

definition binary32_round :: "real \<Rightarrow> real" where
  "binary32_round x =
     (if x = 0 then 0
      else of_int (round_ties_to_even (x / binary32_ulp x)) * binary32_ulp x)"

definition binary32_mul :: "real \<Rightarrow> real \<Rightarrow> real" where
  "binary32_mul a b = binary32_round (a * b)"

definition binary32_div :: "real \<Rightarrow> real \<Rightarrow> real" where
  "binary32_div a b = binary32_round (a / b)"

text \<open>
  \<open>(uint32_t)f\<close> discards the fractional part of \<open>f\<close>; it is undefined, \<open>None\<close> here, when
  what is left is not a \<open>uint32_t\<close>. \<open>(float)w\<close> rounds.
\<close>

definition float_to_uint32 :: "real \<Rightarrow> uint32 option" where
  "float_to_uint32 f =
     (if - 1 < f \<and> f < 2 ^ 32 then Some (word_of_int (if 0 \<le> f then \<lfloor>f\<rfloor> else \<lceil>f\<rceil>))
      else None)"

definition uint32_to_float :: "uint32 \<Rightarrow> real" where
  "uint32_to_float w = binary32_round (real (unat w))"

text \<open>
  \<open>u = uv.array[0] * 65535.0f; v = uv.array[1] * 65535.0f;
  tmp = ((u & 0xFFFFu) | ((v & 0xFFFFu) << 16)); return (int32_t)tmp;\<close>
  with \<open>u\<close>, \<open>v\<close> and \<open>tmp\<close> of type \<open>uint32_t\<close>.
\<close>

definition cc__EncodeUv :: "real \<times> real \<Rightarrow> int32 option" where
  "cc__EncodeUv uv =
     (case float_to_uint32 (binary32_mul (fst uv) 65535) of
        None \<Rightarrow> None
      | Some u \<Rightarrow>
          (case float_to_uint32 (binary32_mul (snd uv) 65535) of
             None \<Rightarrow> None
           | Some v \<Rightarrow>
               (let tmp = (u AND 0xFFFF) OR push_bit 16 (v AND 0xFFFF)
                in Some tmp)))"

text \<open>
  \<open>tmp = (uint32_t)uvEncoded;
  uv = {((tmp >> 0) & 0xFFFF) / 65535.0f, ((tmp >> 16) & 0xFFFF) / 65535.0f};\<close>
  The dividend is a \<open>uint32_t\<close>, converted to \<open>float\<close> for the division.
\<close>

definition cc__DecodeUv :: "int32 \<Rightarrow> real \<times> real" where
  "cc__DecodeUv uvEncoded =
     (let tmp = uvEncoded
      in (binary32_div (uint32_to_float (drop_bit 0 tmp AND 0xFFFF)) 65535,
          binary32_div (uint32_to_float (drop_bit 16 tmp AND 0xFFFF)) 65535))"


section \<open>Closed forms and the one-step rules\<close>

lemma not_push_ones: "NOT (push_bit n (0xFFFFFFFF :: 32 word)) = 2 ^ n - 1"
proof -
  have "(0xFFFFFFFF :: 32 word) = - 1" by simp
  then show ?thesis
    by (simp add: push_bit_eq_mult not_eq_complement del: word_eq_numeral_iff_iszero)
qed

lemma pow4_eq: "(4::'a::comm_ring_1) ^ d = 2 ^ (2 * d)"
  by (simp add: power_mult)

lemma counts_at_depth_Suc: "counts_at_depth c (Suc d) = quad_split_step (counts_at_depth c d)"
  by (simp add: counts_at_depth_def)

lemma counts_at_depth_Suc_closed:
  fixes c0 :: "'a::comm_ring_1 level_counts"
  shows "counts_at_depth c0 (Suc d) =
     \<lparr>cnt_F = cnt_H c0 * 4 ^ d,
      cnt_E = 2 ^ d * (2 * cnt_E c0 + (2 ^ Suc d - 1) * cnt_H c0),
      cnt_H = cnt_H c0 * 4 ^ Suc d,
      cnt_C = cnt_C c0 * 2 ^ Suc d,
      cnt_V = (cnt_V c0 + cnt_E c0 + cnt_F c0)
              + (2 ^ d - 1) * ((2 * cnt_E c0 + cnt_H c0) + (2 ^ d - 1) * cnt_H c0)\<rparr>"
proof (induction d)
  case 0
  show ?case by (simp add: counts_at_depth_def quad_split_step_def)
next
  case (Suc d)
  have sq: "(4::'a) ^ d = 2 ^ d * 2 ^ d"
    by (simp add: pow4_eq mult_2 power_add)
  show ?case
    unfolding counts_at_depth_Suc [of c0 "Suc d"] Suc.IH quad_split_step_def
    by (simp add: sq algebra_simps)
qed

lemma ccm_HalfedgeCountAtDepth_closed:
  "ccm_HalfedgeCountAtDepth cage d = ccm_HalfedgeCount cage * 4 ^ d"
  by (simp add: ccm_HalfedgeCountAtDepth_def push_bit_eq_mult pow4_eq mult.commute)

lemma ccm_CreaseCountAtDepth_closed:
  "ccm_CreaseCountAtDepth cage d = ccm_EdgeCount cage * 2 ^ d"
  by (simp add: ccm_CreaseCountAtDepth_def ccm_CreaseCount_def push_bit_eq_mult)

lemma ccm_FaceCountAtDepth_Fast_closed:
  "ccm_FaceCountAtDepth_Fast cage (Suc n) = ccm_HalfedgeCount cage * 4 ^ n"
  by (simp add: ccm_FaceCountAtDepth_Fast_def push_bit_eq_mult pow4_eq mult.commute)

lemma ccm_EdgeCountAtDepth_Fast_closed:
  "ccm_EdgeCountAtDepth_Fast cage (Suc n) =
     2 ^ n * (2 * ccm_EdgeCount cage + (2 ^ Suc n - 1) * ccm_HalfedgeCount cage)"
  unfolding ccm_EdgeCountAtDepth_Fast_def Let_def not_push_ones
  by (simp add: push_bit_eq_mult mult.commute)

lemma ccm_VertexCountAtDepth_Fast_closed:
  "ccm_VertexCountAtDepth_Fast cage (Suc n) =
     (ccm_VertexCount cage + ccm_EdgeCount cage + ccm_FaceCount cage)
     + (2 ^ n - 1) * ((2 * ccm_EdgeCount cage + ccm_HalfedgeCount cage)
                      + (2 ^ n - 1) * ccm_HalfedgeCount cage)"
  unfolding ccm_VertexCountAtDepth_Fast_def Let_def not_push_ones
  by simp

lemma counting_functions_iterate_word:
  "ccm_FaceCountAtDepth cage d = cnt_F (counts_at_depth (cage_counts cage) d)"
  "ccm_EdgeCountAtDepth cage d = cnt_E (counts_at_depth (cage_counts cage) d)"
  "ccm_HalfedgeCountAtDepth cage d = cnt_H (counts_at_depth (cage_counts cage) d)"
  "ccm_CreaseCountAtDepth cage d = cnt_C (counts_at_depth (cage_counts cage) d)"
  "ccm_VertexCountAtDepth cage d = cnt_V (counts_at_depth (cage_counts cage) d)"
proof -
  have "ccm_FaceCountAtDepth cage d = cnt_F (counts_at_depth (cage_counts cage) d) \<and>
      ccm_EdgeCountAtDepth cage d = cnt_E (counts_at_depth (cage_counts cage) d) \<and>
      ccm_HalfedgeCountAtDepth cage d = cnt_H (counts_at_depth (cage_counts cage) d) \<and>
      ccm_CreaseCountAtDepth cage d = cnt_C (counts_at_depth (cage_counts cage) d) \<and>
      ccm_VertexCountAtDepth cage d = cnt_V (counts_at_depth (cage_counts cage) d)"
  proof (cases d)
    case 0
    then show ?thesis
      by (simp add: counts_at_depth_def cage_counts_def ccm_FaceCountAtDepth_def
          ccm_EdgeCountAtDepth_def ccm_HalfedgeCountAtDepth_def ccm_CreaseCountAtDepth_def
          ccm_VertexCountAtDepth_def ccm_CreaseCount_def ccm_FaceCount_def ccm_EdgeCount_def
          ccm_HalfedgeCount_def ccm_VertexCount_def)
  next
    case (Suc n)
    show ?thesis
      unfolding Suc counts_at_depth_Suc_closed ccm_HalfedgeCountAtDepth_closed
        ccm_CreaseCountAtDepth_closed ccm_FaceCountAtDepth_def ccm_EdgeCountAtDepth_def
        ccm_VertexCountAtDepth_def ccm_FaceCountAtDepth_Fast_closed
        ccm_EdgeCountAtDepth_Fast_closed ccm_VertexCountAtDepth_Fast_closed
      by (simp add: cage_counts_def ccm_CreaseCount_def ccm_FaceCount_def ccm_EdgeCount_def
          ccm_HalfedgeCount_def ccm_VertexCount_def)
  qed
  then show "ccm_FaceCountAtDepth cage d = cnt_F (counts_at_depth (cage_counts cage) d)"
    and "ccm_EdgeCountAtDepth cage d = cnt_E (counts_at_depth (cage_counts cage) d)"
    and "ccm_HalfedgeCountAtDepth cage d = cnt_H (counts_at_depth (cage_counts cage) d)"
    and "ccm_CreaseCountAtDepth cage d = cnt_C (counts_at_depth (cage_counts cage) d)"
    and "ccm_VertexCountAtDepth cage d = cnt_V (counts_at_depth (cage_counts cage) d)"
    by simp_all
qed

text \<open>
  The one-step rules run in 32-bit arithmetic give the 32-bit truncation of what they
  give in the integers: every rule is a sum of products.
\<close>

lemma counts_at_depth_word_of_int:
  "cnt_F (counts_at_depth (cage_counts cage) d)
     = word_of_int (cnt_F (int_counts_at_depth cage d)) \<and>
   cnt_E (counts_at_depth (cage_counts cage) d)
     = word_of_int (cnt_E (int_counts_at_depth cage d)) \<and>
   cnt_H (counts_at_depth (cage_counts cage) d)
     = word_of_int (cnt_H (int_counts_at_depth cage d)) \<and>
   cnt_C (counts_at_depth (cage_counts cage) d)
     = word_of_int (cnt_C (int_counts_at_depth cage d)) \<and>
   cnt_V (counts_at_depth (cage_counts cage) d)
     = word_of_int (cnt_V (int_counts_at_depth cage d))"
  unfolding int_counts_at_depth_def
proof (induction d)
  case 0
  show ?case by (simp add: counts_at_depth_def cage_counts_def cage_counts_int_def)
next
  case (Suc d)
  show ?case
    unfolding counts_at_depth_Suc using Suc.IH by (simp add: quad_split_step_def)
qed

lemma counting_functions_word_of_int:
  "ccm_FaceCountAtDepth cage d = word_of_int (cnt_F (int_counts_at_depth cage d))"
  "ccm_EdgeCountAtDepth cage d = word_of_int (cnt_E (int_counts_at_depth cage d))"
  "ccm_HalfedgeCountAtDepth cage d = word_of_int (cnt_H (int_counts_at_depth cage d))"
  "ccm_CreaseCountAtDepth cage d = word_of_int (cnt_C (int_counts_at_depth cage d))"
  "ccm_VertexCountAtDepth cage d = word_of_int (cnt_V (int_counts_at_depth cage d))"
  unfolding counting_functions_iterate_word
  using counts_at_depth_word_of_int [of cage d] by simp_all


section \<open>Cumulative counts as sums over the levels\<close>

lemma sint_word_of_int_fit:
  "- (2 ^ 31) \<le> n \<Longrightarrow> n < 2 ^ 31 \<Longrightarrow> sint (word_of_int n :: 32 word) = n"
  by (simp add: sint_sbintrunc' signed_take_bit_int_eq_self)

lemma sdiv32_word_of_int:
  assumes "0 \<le> n" "n < 2 ^ 31" "0 < m" "m < 2 ^ 31"
  shows "sdiv32 (word_of_int n) (word_of_int m) = word_of_int (n div m)"
proof -
  have "sint (word_of_int n :: 32 word) = n" "sint (word_of_int m :: 32 word) = m"
    using assms by (simp_all add: sint_word_of_int_fit)
  moreover have "n sdiv m = n div m"
    using assms by (simp add: signed_divide_int_def sgn_if)
  ultimately show ?thesis by (simp add: sdiv32_def)
qed

lemma sum_pow4: "3 * (\<Sum>k = 1..D. (4::int) ^ k) = 4 * (4 ^ D - 1)"
  by (induction D) (simp_all add: algebra_simps)

lemma sum_pow2: "(\<Sum>k = 1..D. (2::int) ^ k) = 2 * (2 ^ D - 1)"
  by (induction D) (simp_all add: algebra_simps)

lemma sum_edges:
  fixes E0 H0 :: int
  shows "6 * (\<Sum>k = 1..D. 2 ^ (k - 1) * (2 * E0 + (2 ^ k - 1) * H0))
       = (2 ^ D - 1) * (6 * (2 * E0 + H0) + (2 ^ D - 1) * (4 * H0) - 4 * H0)"
proof (induction D)
  case 0
  show ?case by simp
next
  case (Suc D)
  have sq: "(2::int) ^ D * 2 ^ D = 4 ^ D" by (simp add: pow4_eq mult_2 power_add)
  show ?case
    using Suc.IH by (simp add: algebra_simps sq)
qed

lemma sum_vertices:
  fixes V1 E1 F1 B :: int
  assumes "3 * B = 4 ^ D - 1"
  shows "3 * (\<Sum>k = 1..D. V1 + (2 ^ (k - 1) - 1) * (E1 + (2 ^ (k - 1) - 1) * F1))
       = 3 * ((2 ^ D - 1) * (E1 - 2 * F1) + B * F1 + int D * (F1 - E1 + V1))"
proof -
  have "3 * (\<Sum>k = 1..D. V1 + (2 ^ (k - 1) - 1) * (E1 + (2 ^ (k - 1) - 1) * F1))
       = 3 * (2 ^ D - 1) * (E1 - 2 * F1) + (4 ^ D - 1) * F1 + 3 * int D * (F1 - E1 + V1)"
  proof (induction D)
    case 0
    show ?case by simp
  next
    case (Suc D)
    have sq: "(2::int) ^ D * 2 ^ D = 4 ^ D" by (simp add: pow4_eq mult_2 power_add)
    show ?case
      using Suc.IH by (simp add: algebra_simps sq)
  qed
  moreover have "(4 ^ D - 1) * F1 = 3 * (B * F1)"
    using assms by simp
  ultimately show ?thesis by (simp only: distrib_left mult.assoc)
qed

lemma push_bit_1_nat: "push_bit 1 (D::nat) = 2 * D"
  by (simp add: push_bit_eq_mult)

lemma not_push_ones_double:
  "NOT (push_bit (push_bit 1 D) (0xFFFFFFFF :: 32 word)) = 4 ^ D - 1"
  unfolding not_push_ones push_bit_1_nat pow4_eq ..

lemma cumulative_halfedge_word:
  "push_bit 2 (ccm_HalfedgeCount cage) * NOT (push_bit (push_bit 1 D) (0xFFFFFFFF :: 32 word))
     = word_of_int (3 * (\<Sum>k = 1..D. sint (ccm_HalfedgeCount cage) * 4 ^ k))"
proof -
  define H0 where "H0 = sint (ccm_HalfedgeCount cage)"
  have "3 * (\<Sum>k = 1..D. H0 * 4 ^ k) = H0 * (3 * (\<Sum>k = 1..D. 4 ^ k))"
    by (simp add: sum_distrib_left mult.left_commute)
  also have "\<dots> = H0 * (4 * (4 ^ D - 1))"
    by (simp only: sum_pow4)
  finally have "word_of_int (3 * (\<Sum>k = 1..D. H0 * 4 ^ k)) = (word_of_int (H0 * (4 * (4 ^ D - 1))) :: 32 word)"
    by simp
  also have "\<dots> = push_bit 2 (ccm_HalfedgeCount cage) * (4 ^ D - 1)"
    by (simp add: H0_def push_bit_eq_mult algebra_simps)
  finally show ?thesis
    unfolding not_push_ones_double H0_def by simp
qed

lemma sum_nonneg_le:
  fixes f :: "nat \<Rightarrow> int"
  assumes "\<And>k. 0 \<le> f k"
  shows "0 \<le> (\<Sum>k = 1..D. f k)" and "1 \<le> j \<Longrightarrow> j \<le> D \<Longrightarrow> f j \<le> (\<Sum>k = 1..D. f k)"
proof -
  show "0 \<le> (\<Sum>k = 1..D. f k)" by (rule sum_nonneg) (simp add: assms)
  assume "1 \<le> j" "j \<le> D"
  then have "j \<in> {1..D}" by simp
  then show "f j \<le> (\<Sum>k = 1..D. f k)"
    by (intro member_le_sum) (simp_all add: assms)
qed

lemma cumulative_halfedge_sint:
  assumes "0 \<le> sint (ccm_HalfedgeCount cage)"
    and "3 * (\<Sum>k = 1..D. sint (ccm_HalfedgeCount cage) * 4 ^ k) < 2 ^ 31"
  shows "sint (ccs_CumulativeHalfedgeCountAtDepth cage D)
       = (\<Sum>k = 1..D. sint (ccm_HalfedgeCount cage) * 4 ^ k)"
proof -
  define S where "S = (\<Sum>k = 1..D. sint (ccm_HalfedgeCount cage) * 4 ^ k)"
  have S0: "0 \<le> S"
    unfolding S_def by (rule sum_nonneg_le(1)) (simp add: assms(1))
  have S1: "3 * S < 2 ^ 31" using assms(2) by (simp add: S_def)
  have "ccs_CumulativeHalfedgeCountAtDepth cage D = sdiv32 (word_of_int (3 * S)) (word_of_int 3)"
    unfolding ccs_CumulativeHalfedgeCountAtDepth_def Let_def cumulative_halfedge_word S_def by simp
  also have "\<dots> = word_of_int (3 * S div 3)"
    using S0 S1 by (intro sdiv32_word_of_int) simp_all
  finally have "ccs_CumulativeHalfedgeCountAtDepth cage D = word_of_int S" by simp
  moreover have "S < 2 ^ 31" using S0 S1 by linarith
  ultimately have "sint (ccs_CumulativeHalfedgeCountAtDepth cage D) = S"
    using S0 by (simp only: sint_word_of_int_fit)
  then show ?thesis by (simp only: S_def)
qed

lemma int_counts_pos:
  assumes "0 < k"
  shows "cnt_F (int_counts_at_depth cage k) = sint (ccm_HalfedgeCount cage) * 4 ^ (k - 1)"
    and "cnt_E (int_counts_at_depth cage k) =
     2 ^ (k - 1) * (2 * sint (ccm_EdgeCount cage) + (2 ^ k - 1) * sint (ccm_HalfedgeCount cage))"
    and "cnt_H (int_counts_at_depth cage k) = sint (ccm_HalfedgeCount cage) * 4 ^ k"
    and "cnt_C (int_counts_at_depth cage k) = sint (ccm_EdgeCount cage) * 2 ^ k"
    and "cnt_V (int_counts_at_depth cage k) =
     (sint (ccm_VertexCount cage) + sint (ccm_EdgeCount cage) + sint (ccm_FaceCount cage))
     + (2 ^ (k - 1) - 1) * ((2 * sint (ccm_EdgeCount cage) + sint (ccm_HalfedgeCount cage))
                      + (2 ^ (k - 1) - 1) * sint (ccm_HalfedgeCount cage))"
proof -
  obtain n where k: "k = Suc n" using assms by (cases k) simp_all
  show "cnt_F (int_counts_at_depth cage k) = sint (ccm_HalfedgeCount cage) * 4 ^ (k - 1)"
    and "cnt_E (int_counts_at_depth cage k) =
     2 ^ (k - 1) * (2 * sint (ccm_EdgeCount cage) + (2 ^ k - 1) * sint (ccm_HalfedgeCount cage))"
    and "cnt_H (int_counts_at_depth cage k) = sint (ccm_HalfedgeCount cage) * 4 ^ k"
    and "cnt_C (int_counts_at_depth cage k) = sint (ccm_EdgeCount cage) * 2 ^ k"
    and "cnt_V (int_counts_at_depth cage k) =
     (sint (ccm_VertexCount cage) + sint (ccm_EdgeCount cage) + sint (ccm_FaceCount cage))
     + (2 ^ (k - 1) - 1) * ((2 * sint (ccm_EdgeCount cage) + sint (ccm_HalfedgeCount cage))
                      + (2 ^ (k - 1) - 1) * sint (ccm_HalfedgeCount cage))"
    unfolding k int_counts_at_depth_def counts_at_depth_Suc_closed
    by (simp_all add: cage_counts_int_def ccm_CreaseCount_def ccm_FaceCount_def ccm_EdgeCount_def
        ccm_HalfedgeCount_def ccm_VertexCount_def)
qed

lemma int_counts_nonneg:
  assumes "cage_nonneg cage"
  shows "0 \<le> cnt_F (int_counts_at_depth cage k) \<and> 0 \<le> cnt_E (int_counts_at_depth cage k) \<and>
         0 \<le> cnt_H (int_counts_at_depth cage k) \<and> 0 \<le> cnt_C (int_counts_at_depth cage k) \<and>
         0 \<le> cnt_V (int_counts_at_depth cage k)"
proof (induction k)
  case 0
  show ?case
    using assms
    by (simp add: int_counts_at_depth_def counts_at_depth_def cage_counts_int_def
        cage_nonneg_def ccm_CreaseCount_def)
next
  case (Suc k)
  then show ?case
    by (simp add: int_counts_at_depth_def counts_at_depth_Suc quad_split_step_def)
qed

lemma sum_int_counts:
  "(\<Sum>k = 1..D. cnt_H (int_counts_at_depth cage k))
     = (\<Sum>k = 1..D. sint (ccm_HalfedgeCount cage) * 4 ^ k)"
  "(\<Sum>k = 1..D. cnt_C (int_counts_at_depth cage k))
     = (\<Sum>k = 1..D. sint (ccm_EdgeCount cage) * 2 ^ k)"
  "(\<Sum>k = 1..D. cnt_F (int_counts_at_depth cage k))
     = (\<Sum>k = 1..D. sint (ccm_HalfedgeCount cage) * 4 ^ (k - 1))"
  "(\<Sum>k = 1..D. cnt_E (int_counts_at_depth cage k))
     = (\<Sum>k = 1..D. 2 ^ (k - 1) * (2 * sint (ccm_EdgeCount cage)
                       + (2 ^ k - 1) * sint (ccm_HalfedgeCount cage)))"
  "(\<Sum>k = 1..D. cnt_V (int_counts_at_depth cage k))
     = (\<Sum>k = 1..D. (sint (ccm_VertexCount cage) + sint (ccm_EdgeCount cage) + sint (ccm_FaceCount cage))
     + (2 ^ (k - 1) - 1) * ((2 * sint (ccm_EdgeCount cage) + sint (ccm_HalfedgeCount cage))
                      + (2 ^ (k - 1) - 1) * sint (ccm_HalfedgeCount cage)))"
  by (rule sum.cong, simp, simp add: int_counts_pos)+

lemma cumulative_edge_word:
  "NOT (push_bit D (0xFFFFFFFF :: 32 word))
     * (6 * (push_bit 1 (ccm_EdgeCount cage) + ccm_HalfedgeCount cage)
        + NOT (push_bit D (0xFFFFFFFF :: 32 word)) * push_bit 2 (ccm_HalfedgeCount cage)
        - push_bit 2 (ccm_HalfedgeCount cage))
   = word_of_int (6 * (\<Sum>k = 1..D. cnt_E (int_counts_at_depth cage k)))"
proof -
  define E0 where "E0 = sint (ccm_EdgeCount cage)"
  define H0 where "H0 = sint (ccm_HalfedgeCount cage)"
  have "6 * (\<Sum>k = 1..D. cnt_E (int_counts_at_depth cage k))
      = (2 ^ D - 1) * (6 * (2 * E0 + H0) + (2 ^ D - 1) * (4 * H0) - 4 * H0)"
    unfolding sum_int_counts E0_def H0_def by (rule sum_edges)
  then have "word_of_int (6 * (\<Sum>k = 1..D. cnt_E (int_counts_at_depth cage k)))
      = (word_of_int ((2 ^ D - 1) * (6 * (2 * E0 + H0) + (2 ^ D - 1) * (4 * H0) - 4 * H0)) :: 32 word)"
    by (rule arg_cong)
  also have "\<dots> = (2 ^ D - 1)
     * (6 * (push_bit 1 (ccm_EdgeCount cage) + ccm_HalfedgeCount cage)
        + (2 ^ D - 1) * push_bit 2 (ccm_HalfedgeCount cage)
        - push_bit 2 (ccm_HalfedgeCount cage))"
    by (simp add: E0_def H0_def push_bit_eq_mult mult.commute)
  finally show ?thesis
    unfolding not_push_ones by simp
qed

lemma cumulative_edge_sint:
  assumes "cage_nonneg cage"
    and "6 * (\<Sum>k = 1..D. cnt_E (int_counts_at_depth cage k)) < 2 ^ 31"
  shows "sint (ccs_CumulativeEdgeCountAtDepth cage D)
       = (\<Sum>k = 1..D. cnt_E (int_counts_at_depth cage k))"
proof -
  define S where "S = (\<Sum>k = 1..D. cnt_E (int_counts_at_depth cage k))"
  have S0: "0 \<le> S"
    unfolding S_def by (rule sum_nonneg_le(1)) (simp add: int_counts_nonneg [OF assms(1)])
  have S1: "6 * S < 2 ^ 31" using assms(2) by (simp add: S_def)
  have "ccs_CumulativeEdgeCountAtDepth cage D = sdiv32 (word_of_int (6 * S)) (word_of_int 6)"
    unfolding ccs_CumulativeEdgeCountAtDepth_def Let_def cumulative_edge_word S_def by simp
  also have "\<dots> = word_of_int (6 * S div 6)"
    using S0 S1 by (intro sdiv32_word_of_int) simp_all
  finally have "ccs_CumulativeEdgeCountAtDepth cage D = word_of_int S" by simp
  moreover have "S < 2 ^ 31" using S0 S1 by linarith
  ultimately have "sint (ccs_CumulativeEdgeCountAtDepth cage D) = S"
    using S0 by (simp only: sint_word_of_int_fit)
  then show ?thesis by (simp only: S_def)
qed

lemma cumulative_crease_word:
  "ccs_CumulativeCreaseCountAtDepth cage D
     = word_of_int (\<Sum>k = 1..D. cnt_C (int_counts_at_depth cage k))"
proof -
  define E0 where "E0 = sint (ccm_EdgeCount cage)"
  have "(\<Sum>k = 1..D. cnt_C (int_counts_at_depth cage k)) = E0 * (\<Sum>k = 1..D. 2 ^ k)"
    unfolding sum_int_counts E0_def by (simp add: sum_distrib_left)
  also have "\<dots> = E0 * (2 * (2 ^ D - 1))"
    by (simp only: sum_pow2)
  finally have "word_of_int (\<Sum>k = 1..D. cnt_C (int_counts_at_depth cage k))
      = (word_of_int (E0 * (2 * (2 ^ D - 1))) :: 32 word)"
    by (rule arg_cong)
  also have "\<dots> = push_bit 1 (ccm_EdgeCount cage) * (2 ^ D - 1)"
    by (simp add: E0_def push_bit_eq_mult algebra_simps)
  finally show ?thesis
    unfolding ccs_CumulativeCreaseCountAtDepth_def Let_def not_push_ones ccm_CreaseCount_def
    by simp
qed

lemma three_dvd_pow4_int: "(3::int) dvd 4 ^ D - 1"
proof (induction D)
  case 0
  show ?case by simp
next
  case (Suc D)
  have "(4::int) ^ Suc D - 1 = 4 * (4 ^ D - 1) + 3" by simp
  then show ?case using Suc.IH by (metis dvd_add dvd_mult dvd_refl)
qed

lemma cancel_three_word32:
  fixes a b :: "32 word"
  assumes "3 * a = 3 * b"
  shows "a = b"
proof -
  have inv: "(0xAAAAAAAB :: 32 word) * 3 = 1" by simp
  have "a = (0xAAAAAAAB * 3) * a" by (simp only: inv mult_1)
  also have "\<dots> = 0xAAAAAAAB * (3 * a)" by (simp only: mult.assoc)
  also have "\<dots> = 0xAAAAAAAB * (3 * b)" by (simp only: assms)
  also have "\<dots> = (0xAAAAAAAB * 3) * b" by (simp only: mult.assoc)
  also have "\<dots> = b" by (simp only: inv mult_1)
  finally show ?thesis .
qed

lemma word_div3_exact:
  "3 * ((4 ^ D - 1 :: 32 word) div 3) = 4 ^ D - 1"
proof (cases "D < 16")
  case True
  define a :: nat where "a = 4 ^ D - 1"
  have "(4::nat) ^ D \<le> 4 ^ 15" using True by (intro power_increasing) simp_all
  then have a_lt: "a < 2 ^ 32" by (simp add: a_def)
  have w: "(4 ^ D - 1 :: 32 word) = of_nat a"
    by (simp add: a_def)
  have "int a = 4 ^ D - 1" by (simp add: a_def of_nat_diff)
  then have "3 dvd int a" using three_dvd_pow4_int [of D] by simp
  then have dvd: "3 dvd a" by presburger
  have "unat (of_nat a :: 32 word) = a"
    using a_lt by (simp add: unat_of_nat)
  then have "(of_nat a :: 32 word) div 3 = of_nat (a div 3)"
    by (simp add: word_arith_nat_div [of "of_nat a" 3])
  then have "3 * ((of_nat a :: 32 word) div 3) = of_nat (3 * (a div 3))"
    by simp
  also have "\<dots> = of_nat a" using dvd by simp
  finally show ?thesis by (simp only: w)
next
  case False
  then obtain m where D: "D = 16 + m" by (metis le_add_diff_inverse not_less)
  have "(4::32 word) ^ D = 4 ^ 16 * 4 ^ m" by (simp add: D power_add)
  also have "\<dots> = 0"
  proof -
    have "(4::32 word) ^ 16 = 0" by simp
    then show ?thesis by (simp only: mult_zero_left)
  qed
  finally have z: "(4::32 word) ^ D = 0" .
  show ?thesis unfolding z by simp
qed

lemma third_of_mask:
  "NOT (push_bit (push_bit 1 D) (0xFFFFFFFF :: 32 word)) div 3 = word_of_int ((4 ^ D - 1) div 3)"
proof -
  have "3 * (word_of_int ((4 ^ D - 1) div 3) :: 32 word) = word_of_int (3 * ((4 ^ D - 1) div 3))"
    by simp
  also have "\<dots> = word_of_int (4 ^ D - 1)"
    using three_dvd_pow4_int [of D] by simp
  also have "\<dots> = 4 ^ D - 1" by simp
  finally have "3 * ((4 ^ D - 1 :: 32 word) div 3) = 3 * word_of_int ((4 ^ D - 1) div 3)"
    by (simp only: word_div3_exact)
  then show ?thesis
    unfolding not_push_ones_double by (rule cancel_three_word32)
qed

lemma cumulative_vertex_word:
  "ccs_CumulativeVertexCountAtDepth cage D
     = word_of_int (\<Sum>k = 1..D. cnt_V (int_counts_at_depth cage k))"
proof -
  define V0 where "V0 = sint (ccm_VertexCount cage)"
  define E0 where "E0 = sint (ccm_EdgeCount cage)"
  define H0 where "H0 = sint (ccm_HalfedgeCount cage)"
  define F0 where "F0 = sint (ccm_FaceCount cage)"
  define B :: int where "B = (4 ^ D - 1) div 3"
  have B3: "3 * B = 4 ^ D - 1"
    unfolding B_def using three_dvd_pow4_int [of D] by simp
  have "3 * (\<Sum>k = 1..D. cnt_V (int_counts_at_depth cage k))
      = 3 * ((2 ^ D - 1) * ((2 * E0 + H0) - 2 * H0) + B * H0
             + int D * (H0 - (2 * E0 + H0) + (V0 + E0 + F0)))"
    unfolding sum_int_counts V0_def E0_def H0_def F0_def
    by (rule sum_vertices) (simp only: B3 H0_def)
  then have "(\<Sum>k = 1..D. cnt_V (int_counts_at_depth cage k))
      = (2 ^ D - 1) * ((2 * E0 + H0) - 2 * H0) + B * H0
             + int D * (H0 - (2 * E0 + H0) + (V0 + E0 + F0))"
    by simp
  then have "word_of_int (\<Sum>k = 1..D. cnt_V (int_counts_at_depth cage k))
      = (word_of_int ((2 ^ D - 1) * ((2 * E0 + H0) - 2 * H0) + B * H0
             + int D * (H0 - (2 * E0 + H0) + (V0 + E0 + F0))) :: 32 word)"
    by (rule arg_cong)
  also have "\<dots> = (2 ^ D - 1) * ((2 * ccm_EdgeCount cage + ccm_HalfedgeCount cage)
                      - push_bit 1 (ccm_HalfedgeCount cage))
        + word_of_int B * ccm_HalfedgeCount cage
        + of_nat D * (ccm_HalfedgeCount cage - (2 * ccm_EdgeCount cage + ccm_HalfedgeCount cage)
             + (ccm_VertexCount cage + ccm_EdgeCount cage + ccm_FaceCount cage))"
    by (simp add: V0_def E0_def H0_def F0_def push_bit_eq_mult mult.commute)
  finally have r: "word_of_int (\<Sum>k = 1..D. cnt_V (int_counts_at_depth cage k))
      = (2 ^ D - 1) * ((2 * ccm_EdgeCount cage + ccm_HalfedgeCount cage)
                      - push_bit 1 (ccm_HalfedgeCount cage))
        + word_of_int B * ccm_HalfedgeCount cage
        + of_nat D * (ccm_HalfedgeCount cage - (2 * ccm_EdgeCount cage + ccm_HalfedgeCount cage)
             + (ccm_VertexCount cage + ccm_EdgeCount cage + ccm_FaceCount cage))" .
  have "ccs_CumulativeVertexCountAtDepth cage D
      = (2 ^ D - 1) * ((2 * ccm_EdgeCount cage + ccm_HalfedgeCount cage)
                      - push_bit 1 (ccm_HalfedgeCount cage))
        + word_of_int B * ccm_HalfedgeCount cage
        + of_nat D * (ccm_HalfedgeCount cage - (2 * ccm_EdgeCount cage + ccm_HalfedgeCount cage)
             + (ccm_VertexCount cage + ccm_EdgeCount cage + ccm_FaceCount cage))"
    by (simp only: ccs_CumulativeVertexCountAtDepth_def Let_def third_of_mask B_def)
      (simp only: not_push_ones)
  then show ?thesis by (simp only: r)
qed

lemma cumulative_crease_sint:
  assumes "cage_nonneg cage"
    and "(\<Sum>k = 1..D. cnt_C (int_counts_at_depth cage k)) < 2 ^ 31"
  shows "sint (ccs_CumulativeCreaseCountAtDepth cage D)
       = (\<Sum>k = 1..D. cnt_C (int_counts_at_depth cage k))"
proof -
  have "0 \<le> (\<Sum>k = 1..D. cnt_C (int_counts_at_depth cage k))"
    by (rule sum_nonneg_le(1)) (simp add: int_counts_nonneg [OF assms(1)])
  then show ?thesis
    unfolding cumulative_crease_word using assms(2) by (intro sint_word_of_int_fit) simp_all
qed

lemma cumulative_vertex_sint:
  assumes "cage_nonneg cage"
    and "(\<Sum>k = 1..D. cnt_V (int_counts_at_depth cage k)) < 2 ^ 31"
  shows "sint (ccs_CumulativeVertexCountAtDepth cage D)
       = (\<Sum>k = 1..D. cnt_V (int_counts_at_depth cage k))"
proof -
  have "0 \<le> (\<Sum>k = 1..D. cnt_V (int_counts_at_depth cage k))"
    by (rule sum_nonneg_le(1)) (simp add: int_counts_nonneg [OF assms(1)])
  then show ?thesis
    unfolding cumulative_vertex_word using assms(2) by (intro sint_word_of_int_fit) simp_all
qed

lemma cumulative_halfedge_sint':
  assumes "cage_nonneg cage"
    and "3 * (\<Sum>k = 1..D. cnt_H (int_counts_at_depth cage k)) < 2 ^ 31"
  shows "sint (ccs_CumulativeHalfedgeCountAtDepth cage D)
       = (\<Sum>k = 1..D. cnt_H (int_counts_at_depth cage k))"
  using assms unfolding sum_int_counts cage_nonneg_def
  by (intro cumulative_halfedge_sint) (simp_all add: ccm_HalfedgeCount_def)

lemma sum_faces_quarter:
  "(\<Sum>k = 1..D. cnt_H (int_counts_at_depth cage k))
     = 4 * (\<Sum>k = 1..D. cnt_F (int_counts_at_depth cage k))"
proof -
  have "(\<Sum>k = 1..D. sint (ccm_HalfedgeCount cage) * 4 ^ k)
      = (\<Sum>k = 1..D. 4 * (sint (ccm_HalfedgeCount cage) * 4 ^ (k - 1)))"
    by (rule sum.cong) (simp_all add: power_eq_if)
  then show ?thesis
    unfolding sum_int_counts by (simp only: sum_distrib_left)
qed

lemma cumulative_face_sint:
  assumes "cage_nonneg cage"
    and "3 * (\<Sum>k = 1..D. cnt_H (int_counts_at_depth cage k)) < 2 ^ 31"
  shows "sint (ccs_CumulativeFaceCountAtDepth cage D)
       = (\<Sum>k = 1..D. cnt_F (int_counts_at_depth cage k))"
  unfolding ccs_CumulativeFaceCountAtDepth_def sint_signed_drop_bit_eq
    cumulative_halfedge_sint' [OF assms] sum_faces_quarter
  by (simp add: drop_bit_eq_div)

lemma per_level_sint:
  assumes "cage_nonneg cage"
  shows "cnt_F (int_counts_at_depth cage d) < 2 ^ 31 \<Longrightarrow>
           sint (ccm_FaceCountAtDepth cage d) = cnt_F (int_counts_at_depth cage d)"
    and "cnt_E (int_counts_at_depth cage d) < 2 ^ 31 \<Longrightarrow>
           sint (ccm_EdgeCountAtDepth cage d) = cnt_E (int_counts_at_depth cage d)"
    and "cnt_H (int_counts_at_depth cage d) < 2 ^ 31 \<Longrightarrow>
           sint (ccm_HalfedgeCountAtDepth cage d) = cnt_H (int_counts_at_depth cage d)"
    and "cnt_C (int_counts_at_depth cage d) < 2 ^ 31 \<Longrightarrow>
           sint (ccm_CreaseCountAtDepth cage d) = cnt_C (int_counts_at_depth cage d)"
    and "cnt_V (int_counts_at_depth cage d) < 2 ^ 31 \<Longrightarrow>
           sint (ccm_VertexCountAtDepth cage d) = cnt_V (int_counts_at_depth cage d)"
  using int_counts_nonneg [OF assms, of d]
  unfolding counting_functions_word_of_int
  by (simp_all add: sint_word_of_int_fit)

lemma sum_per_level_sint:
  fixes f :: "nat \<Rightarrow> 32 word" and g :: "nat \<Rightarrow> int"
  assumes "\<And>k. 0 \<le> g k" and "(\<Sum>k = 1..D. g k) < 2 ^ 31"
    and "\<And>k. g k < 2 ^ 31 \<Longrightarrow> sint (f k) = g k"
  shows "(\<Sum>k = 1..D. sint (f k)) = (\<Sum>k = 1..D. g k)"
proof (rule sum.cong)
  fix k assume "k \<in> {1..D}"
  then have "g k \<le> (\<Sum>k = 1..D. g k)"
    by (intro sum_nonneg_le(2)) (simp_all add: assms(1))
  then have "g k < 2 ^ 31" using assms(2) by linarith
  then show "sint (f k) = g k" by (rule assms(3))
qed simp

lemma crease_le_edge:
  assumes "cage_nonneg cage"
  shows "cnt_C (int_counts_at_depth cage k) \<le> cnt_E (int_counts_at_depth cage k)"
proof (induction k)
  case 0
  show ?case
    by (simp add: int_counts_at_depth_def counts_at_depth_def cage_counts_int_def ccm_CreaseCount_def)
next
  case (Suc k)
  then show ?case
    using int_counts_nonneg [OF assms, of k]
    by (simp add: int_counts_at_depth_def counts_at_depth_Suc quad_split_step_def)
qed

lemma sum_crease_fits:
  assumes "cage_nonneg cage"
    and "6 * (\<Sum>k = 1..D. cnt_E (int_counts_at_depth cage k)) < 2 ^ 31"
  shows "(\<Sum>k = 1..D. cnt_C (int_counts_at_depth cage k)) < 2 ^ 31"
proof -
  have "(\<Sum>k = 1..D. cnt_C (int_counts_at_depth cage k))
      \<le> (\<Sum>k = 1..D. cnt_E (int_counts_at_depth cage k))"
    by (rule sum_mono) (rule crease_le_edge [OF assms(1)])
  moreover have "0 \<le> (\<Sum>k = 1..D. cnt_E (int_counts_at_depth cage k))"
    by (rule sum_nonneg_le(1)) (simp add: int_counts_nonneg [OF assms(1)])
  ultimately show ?thesis using assms(2) by linarith
qed

lemma levels_sum_sint:
  assumes nn: "cage_nonneg cage"
  shows "3 * (\<Sum>k = 1..D. cnt_H (int_counts_at_depth cage k)) < 2 ^ 31 \<Longrightarrow>
      (\<Sum>k = 1..D. sint (ccm_HalfedgeCountAtDepth cage k))
        = (\<Sum>k = 1..D. cnt_H (int_counts_at_depth cage k))"
    and "3 * (\<Sum>k = 1..D. cnt_H (int_counts_at_depth cage k)) < 2 ^ 31 \<Longrightarrow>
      (\<Sum>k = 1..D. sint (ccm_FaceCountAtDepth cage k))
        = (\<Sum>k = 1..D. cnt_F (int_counts_at_depth cage k))"
    and "6 * (\<Sum>k = 1..D. cnt_E (int_counts_at_depth cage k)) < 2 ^ 31 \<Longrightarrow>
      (\<Sum>k = 1..D. sint (ccm_EdgeCountAtDepth cage k))
        = (\<Sum>k = 1..D. cnt_E (int_counts_at_depth cage k))"
    and "6 * (\<Sum>k = 1..D. cnt_E (int_counts_at_depth cage k)) < 2 ^ 31 \<Longrightarrow>
      (\<Sum>k = 1..D. sint (ccm_CreaseCountAtDepth cage k))
        = (\<Sum>k = 1..D. cnt_C (int_counts_at_depth cage k))"
    and "(\<Sum>k = 1..D. cnt_V (int_counts_at_depth cage k)) < 2 ^ 31 \<Longrightarrow>
      (\<Sum>k = 1..D. sint (ccm_VertexCountAtDepth cage k))
        = (\<Sum>k = 1..D. cnt_V (int_counts_at_depth cage k))"
proof -
  note n0 = int_counts_nonneg [OF nn]
  have H0: "0 \<le> (\<Sum>k = 1..D. cnt_H (int_counts_at_depth cage k))"
    by (rule sum_nonneg_le(1)) (simp add: n0)
  have F0: "0 \<le> (\<Sum>k = 1..D. cnt_F (int_counts_at_depth cage k))"
    by (rule sum_nonneg_le(1)) (simp add: n0)
  have E0: "0 \<le> (\<Sum>k = 1..D. cnt_E (int_counts_at_depth cage k))"
    by (rule sum_nonneg_le(1)) (simp add: n0)
  {
    assume a: "3 * (\<Sum>k = 1..D. cnt_H (int_counts_at_depth cage k)) < 2 ^ 31"
    then have h: "(\<Sum>k = 1..D. cnt_H (int_counts_at_depth cage k)) < 2 ^ 31"
      using H0 by linarith
    show "(\<Sum>k = 1..D. sint (ccm_HalfedgeCountAtDepth cage k))
        = (\<Sum>k = 1..D. cnt_H (int_counts_at_depth cage k))"
      by (rule sum_per_level_sint [OF _ h]) (simp_all add: n0 per_level_sint [OF nn])
    have f: "(\<Sum>k = 1..D. cnt_F (int_counts_at_depth cage k)) < 2 ^ 31"
      using h F0 unfolding sum_faces_quarter by linarith
    show "(\<Sum>k = 1..D. sint (ccm_FaceCountAtDepth cage k))
        = (\<Sum>k = 1..D. cnt_F (int_counts_at_depth cage k))"
      by (rule sum_per_level_sint [OF _ f]) (simp_all add: n0 per_level_sint [OF nn])
  }
  {
    assume a: "6 * (\<Sum>k = 1..D. cnt_E (int_counts_at_depth cage k)) < 2 ^ 31"
    then have e: "(\<Sum>k = 1..D. cnt_E (int_counts_at_depth cage k)) < 2 ^ 31"
      using E0 by linarith
    show "(\<Sum>k = 1..D. sint (ccm_EdgeCountAtDepth cage k))
        = (\<Sum>k = 1..D. cnt_E (int_counts_at_depth cage k))"
      by (rule sum_per_level_sint [OF _ e]) (simp_all add: n0 per_level_sint [OF nn])
    show "(\<Sum>k = 1..D. sint (ccm_CreaseCountAtDepth cage k))
        = (\<Sum>k = 1..D. cnt_C (int_counts_at_depth cage k))"
      by (rule sum_per_level_sint [OF _ sum_crease_fits [OF nn a]])
        (simp_all add: n0 per_level_sint [OF nn])
  }
  {
    assume v: "(\<Sum>k = 1..D. cnt_V (int_counts_at_depth cage k)) < 2 ^ 31"
    show "(\<Sum>k = 1..D. sint (ccm_VertexCountAtDepth cage k))
        = (\<Sum>k = 1..D. cnt_V (int_counts_at_depth cage k))"
      by (rule sum_per_level_sint [OF _ v]) (simp_all add: n0 per_level_sint [OF nn])
  }
qed

lemma quad_cage_counts [simp]:
  "ccm_VertexCount quad_cage = 4" "ccm_EdgeCount quad_cage = 4"
  "ccm_HalfedgeCount quad_cage = 4" "ccm_FaceCount quad_cage = 1"
  by (simp_all add: quad_cage_def ccm_VertexCount_def ccm_EdgeCount_def
      ccm_HalfedgeCount_def ccm_FaceCount_def)

lemma sum_1_2: "(\<Sum>k = Suc 0..2. f k) = f (Suc 0) + (f 2 :: 'a::comm_monoid_add)"
proof -
  have "{Suc 0..2} = {Suc 0, 2}" by auto
  then show ?thesis by simp
qed

lemma sum_0_1: "(\<Sum>k = 0..Suc 0. f k) = f 0 + (f (Suc 0) :: 'a::comm_monoid_add)"
  by simp

lemma pillow_cage_counts [simp]:
  "ccm_VertexCount pillow_cage = 3" "ccm_EdgeCount pillow_cage = 3"
  "ccm_HalfedgeCount pillow_cage = 6" "ccm_FaceCount pillow_cage = 2"
  by (simp_all add: pillow_cage_def ccm_VertexCount_def ccm_EdgeCount_def
      ccm_HalfedgeCount_def ccm_FaceCount_def)

lemma pillow_cumulative_halfedge:
  "ccs_CumulativeHalfedgeCountAtDepth pillow_cage 14 = 715827874"
  by (simp add: ccs_CumulativeHalfedgeCountAtDepth_def sdiv32_def signed_divide_int_def)

lemma pillow_cumulative_face:
  "ccs_CumulativeFaceCountAtDepth pillow_cage 14 = 178956968"
  by (simp add: ccs_CumulativeFaceCountAtDepth_def pillow_cumulative_halfedge)

lemma pillow_sum_halfedges:
  "(\<Sum>d = 1..14. sint (ccm_HalfedgeCountAtDepth pillow_cage d)) = 2147483640"
proof -
  have nn: "cage_nonneg pillow_cage" by (simp add: cage_nonneg_def pillow_cage_def)
  have "3 * (\<Sum>d = 1..14. cnt_H (int_counts_at_depth pillow_cage d)) = 6 * (3 * (\<Sum>d = 1..14. 4 ^ d))"
    unfolding sum_int_counts by (simp add: sum_distrib_left)
  also have "\<dots> = 6 * (4 * (4 ^ 14 - 1))" by (simp only: sum_pow4)
  finally have S: "(\<Sum>d = 1..14. cnt_H (int_counts_at_depth pillow_cage d)) = 2147483640"
    by simp
  have lt: "(\<Sum>d = 1..14. cnt_H (int_counts_at_depth pillow_cage d)) < 2 ^ 31"
    by (simp only: S) simp
  have "(\<Sum>d = 1..14. sint (ccm_HalfedgeCountAtDepth pillow_cage d))
      = (\<Sum>d = 1..14. cnt_H (int_counts_at_depth pillow_cage d))"
    by (rule sum_per_level_sint [OF _ lt])
      (simp_all add: int_counts_nonneg [OF nn] per_level_sint [OF nn])
  then show ?thesis by (simp only: S)
qed

lemma pillow_sum_faces:
  "(\<Sum>d = 1..14. sint (ccm_FaceCountAtDepth pillow_cage d)) = 536870910"
proof -
  have nn: "cage_nonneg pillow_cage" by (simp add: cage_nonneg_def pillow_cage_def)
  have "4 * (\<Sum>d = 1..14. cnt_F (int_counts_at_depth pillow_cage d))
      = (\<Sum>d = 1..14. cnt_H (int_counts_at_depth pillow_cage d))"
    by (simp only: sum_faces_quarter)
  also have "3 * \<dots> = 6 * (3 * (\<Sum>d = 1..14. 4 ^ d))"
    unfolding sum_int_counts by (simp add: sum_distrib_left)
  also have "\<dots> = 6 * (4 * (4 ^ 14 - 1))" by (simp only: sum_pow4)
  finally have S: "(\<Sum>d = 1..14. cnt_F (int_counts_at_depth pillow_cage d)) = 536870910"
    by simp
  have lt: "(\<Sum>d = 1..14. cnt_F (int_counts_at_depth pillow_cage d)) < 2 ^ 31"
    by (simp only: S) simp
  have "(\<Sum>d = 1..14. sint (ccm_FaceCountAtDepth pillow_cage d))
      = (\<Sum>d = 1..14. cnt_F (int_counts_at_depth pillow_cage d))"
    by (rule sum_per_level_sint [OF _ lt])
      (simp_all add: int_counts_nonneg [OF nn] per_level_sint [OF nn])
  then show ?thesis by (simp only: S)
qed

section \<open>The per-level counts as numbers\<close>

lemma quad_int_counts_2:
  "cnt_F (int_counts_at_depth quad_cage 2) = 16"
  "cnt_E (int_counts_at_depth quad_cage 2) = 40"
  "cnt_H (int_counts_at_depth quad_cage 2) = 64"
  "cnt_C (int_counts_at_depth quad_cage 2) = 16"
  "cnt_V (int_counts_at_depth quad_cage 2) = 25"
  by (simp_all add: int_counts_pos)

text \<open>
  Claim C1, as amended. For every cage and every depth \<open>d <= 15\<close> at which the values
  that \<open>d\<close> applications of the one-step rules \<open>F' = H\<close>, \<open>E' = 2E + H\<close>, \<open>H' = 4H\<close>,
  \<open>C' = 2C\<close>, \<open>V' = V + E + F\<close> give in the integers, from the base counts stored in the
  cage (with \<open>C0 = E0\<close>), fit an \<open>int32_t\<close>, each of \<open>ccm_FaceCountAtDepth\<close>,
  \<open>ccm_EdgeCountAtDepth\<close>, \<open>ccm_HalfedgeCountAtDepth\<close>, \<open>ccm_CreaseCountAtDepth\<close> and
  \<open>ccm_VertexCountAtDepth\<close> returns exactly that value. The bound on \<open>d\<close> keeps every
  shift count the five functions form below 32 (the largest is \<open>depth << 1\<close>); for a
  cage that has a halfedge it follows from the bound on the values.
\<close>

theorem counting_closed_forms_exact:
  assumes "d \<le> 15"
    and "fits_int32 (cnt_F (int_counts_at_depth cage d))"
    and "fits_int32 (cnt_E (int_counts_at_depth cage d))"
    and "fits_int32 (cnt_H (int_counts_at_depth cage d))"
    and "fits_int32 (cnt_C (int_counts_at_depth cage d))"
    and "fits_int32 (cnt_V (int_counts_at_depth cage d))"
  shows "sint (ccm_FaceCountAtDepth cage d) = cnt_F (int_counts_at_depth cage d) \<and>
         sint (ccm_EdgeCountAtDepth cage d) = cnt_E (int_counts_at_depth cage d) \<and>
         sint (ccm_HalfedgeCountAtDepth cage d) = cnt_H (int_counts_at_depth cage d) \<and>
         sint (ccm_CreaseCountAtDepth cage d) = cnt_C (int_counts_at_depth cage d) \<and>
         sint (ccm_VertexCountAtDepth cage d) = cnt_V (int_counts_at_depth cage d)"
  unfolding counting_functions_word_of_int
  using assms(2-6) by (simp add: fits_int32_def sint_word_of_int_fit)

text \<open>
  The hypotheses of C1 hold for the quad at depth 2, where the rules give 16 faces,
  40 edges, 64 halfedges, 16 creases and 25 vertices.
\<close>

theorem counting_closed_forms_exact_witness:
  "(2::nat) \<le> 15 \<and>
   fits_int32 (cnt_F (int_counts_at_depth quad_cage 2)) \<and>
   fits_int32 (cnt_E (int_counts_at_depth quad_cage 2)) \<and>
   fits_int32 (cnt_H (int_counts_at_depth quad_cage 2)) \<and>
   fits_int32 (cnt_C (int_counts_at_depth quad_cage 2)) \<and>
   fits_int32 (cnt_V (int_counts_at_depth quad_cage 2)) \<and>
   sint (ccm_FaceCountAtDepth quad_cage 2) = 16 \<and>
   sint (ccm_EdgeCountAtDepth quad_cage 2) = 40 \<and>
   sint (ccm_HalfedgeCountAtDepth quad_cage 2) = 64 \<and>
   sint (ccm_CreaseCountAtDepth quad_cage 2) = 16 \<and>
   sint (ccm_VertexCountAtDepth quad_cage 2) = 25"
proof -
  have h2: "(2::nat) \<le> 15" by simp
  have h3: "fits_int32 (cnt_F (int_counts_at_depth quad_cage 2))"
    and h4: "fits_int32 (cnt_E (int_counts_at_depth quad_cage 2))"
    and h5: "fits_int32 (cnt_H (int_counts_at_depth quad_cage 2))"
    and h6: "fits_int32 (cnt_C (int_counts_at_depth quad_cage 2))"
    and h7: "fits_int32 (cnt_V (int_counts_at_depth quad_cage 2))"
    by (simp_all only: quad_int_counts_2) (simp_all add: fits_int32_def)
  note t = counting_closed_forms_exact [OF h2 h3 h4 h5 h6 h7, unfolded quad_int_counts_2]
  show ?thesis
    using h2 h3 h4 h5 h6 h7 t by (intro conjI) blast+
qed

text \<open>
  Claim C1 as stated, for every depth, fails on the two glued triangles at depth 15:
  the rules give \<open>6 * 4 ^ 15 = 6442450944\<close> halfedges, which no \<open>int32_t\<close> holds, and
  \<open>ccm_HalfedgeCountAtDepth\<close> returns \<open>6 << 30\<close>, the \<open>int32_t\<close> \<open>-2147483648\<close>.
\<close>

theorem counting_closed_forms_overflow:
  "cnt_H (int_counts_at_depth pillow_cage 15) = 6442450944 \<and>
   \<not> fits_int32 (cnt_H (int_counts_at_depth pillow_cage 15)) \<and>
   sint (ccm_HalfedgeCountAtDepth pillow_cage 15) = - 2147483648 \<and>
   sint (ccm_HalfedgeCountAtDepth pillow_cage 15) \<noteq> cnt_H (int_counts_at_depth pillow_cage 15)"
proof -
  have a: "cnt_H (int_counts_at_depth pillow_cage 15) = 6442450944"
    by (simp add: int_counts_pos)
  have b: "sint (ccm_HalfedgeCountAtDepth pillow_cage 15) = - 2147483648"
    by (simp add: ccm_HalfedgeCountAtDepth_def)
  show ?thesis unfolding a b by (simp add: fits_int32_def)
qed

section \<open>The cumulative counts and the allocation\<close>

text \<open>
  What the cumulative functions return where the products they form fit an \<open>int32_t\<close>:
  for a cage with non-negative counts and a depth \<open>d\<close> at which three times the
  halfedges of the levels \<open>1..d\<close>, six times their edges, and their vertices are below
  \<open>2 ^ 31\<close>, each cumulative function is the sum of its per-level function over the
  levels \<open>1..d\<close>. Level 0 is in none of the sums.
\<close>

lemma cumulative_counts_sum_levels_from_1:
  assumes "cage_nonneg cage"
    and "3 * (\<Sum>k = 1..d. cnt_H (int_counts_at_depth cage k)) < 2 ^ 31"
    and "6 * (\<Sum>k = 1..d. cnt_E (int_counts_at_depth cage k)) < 2 ^ 31"
    and "(\<Sum>k = 1..d. cnt_V (int_counts_at_depth cage k)) < 2 ^ 31"
  shows "sint (ccs_CumulativeFaceCountAtDepth cage d)
           = (\<Sum>k = 1..d. sint (ccm_FaceCountAtDepth cage k)) \<and>
         sint (ccs_CumulativeEdgeCountAtDepth cage d)
           = (\<Sum>k = 1..d. sint (ccm_EdgeCountAtDepth cage k)) \<and>
         sint (ccs_CumulativeHalfedgeCountAtDepth cage d)
           = (\<Sum>k = 1..d. sint (ccm_HalfedgeCountAtDepth cage k)) \<and>
         sint (ccs_CumulativeCreaseCountAtDepth cage d)
           = (\<Sum>k = 1..d. sint (ccm_CreaseCountAtDepth cage k)) \<and>
         sint (ccs_CumulativeVertexCountAtDepth cage d)
           = (\<Sum>k = 1..d. sint (ccm_VertexCountAtDepth cage k))"
  unfolding levels_sum_sint(1) [OF assms(1) assms(2)] levels_sum_sint(2) [OF assms(1) assms(2)]
    levels_sum_sint(3) [OF assms(1) assms(3)] levels_sum_sint(4) [OF assms(1) assms(3)]
    levels_sum_sint(5) [OF assms(1) assms(4)]
  using cumulative_face_sint [OF assms(1) assms(2)] cumulative_edge_sint [OF assms(1) assms(3)]
    cumulative_halfedge_sint' [OF assms(1) assms(2)]
    cumulative_crease_sint [OF assms(1) sum_crease_fits [OF assms(1) assms(3)]]
    cumulative_vertex_sint [OF assms(1) assms(4)]
  by (intro conjI)

lemma cumulative_halfedge_600000:
  assumes "halfedgeCount cage = 600000"
  shows "sint (ccs_CumulativeHalfedgeCountAtDepth cage 5) = - 613255765"
    and "(\<Sum>d = 1..5. sint (ccm_HalfedgeCountAtDepth cage d)) = 818400000"
proof -
  show "sint (ccs_CumulativeHalfedgeCountAtDepth cage 5) = - 613255765"
    by (simp add: ccs_CumulativeHalfedgeCountAtDepth_def ccm_HalfedgeCount_def assms sdiv32_def
        signed_divide_int_def)
  have "{1..5::nat} = {1, 2, 3, 4, 5}" by auto
  then show "(\<Sum>d = 1..5. sint (ccm_HalfedgeCountAtDepth cage d)) = 818400000"
    by (simp add: ccm_HalfedgeCountAtDepth_def ccm_HalfedgeCount_def assms)
qed

text \<open>
  Claim C2 fails in the code, in two ways. No cumulative function counts level 0: on
  the quad at depth 1 \<open>ccs_CumulativeHalfedgeCountAtDepth\<close> returns 16, level 1 alone,
  where the levels \<open>0..1\<close> hold \<open>4 + 16 = 20\<close> halfedges; 20 is also what the comment
  above the function gives, \<open>H0 (4^{D+1} - 1) / 3\<close>. And the function forms the product
  \<open>H1 * tmp\<close> in \<open>int32_t\<close> before it divides by 3: on the two glued triangles at
  depth 14 every level and the sum of the levels \<open>1..14\<close>, 2147483640, fit an
  \<open>int32_t\<close>, the product \<open>24 * 268435455\<close> does not, and the function returns
  715827874. \<open>ccs_CumulativeVertexCountAtDepth\<close> divides before it multiplies.
\<close>

theorem cumulative_halfedge_count_excludes_level_0:
  "ccs_CumulativeHalfedgeCountAtDepth quad_cage 1 = 16 \<and>
   (\<Sum>k = 0..1. ccm_HalfedgeCountAtDepth quad_cage k) = 20 \<and>
   sint (ccs_CumulativeHalfedgeCountAtDepth quad_cage 1)
     \<noteq> (\<Sum>k = 0..1. sint (ccm_HalfedgeCountAtDepth quad_cage k)) \<and>
   sint (ccs_CumulativeHalfedgeCountAtDepth pillow_cage 14)
     \<noteq> (\<Sum>k = 1..14. sint (ccm_HalfedgeCountAtDepth pillow_cage k))"
proof -
  have a: "ccs_CumulativeHalfedgeCountAtDepth quad_cage 1 = 16"
    by (simp add: ccs_CumulativeHalfedgeCountAtDepth_def sdiv32_def signed_divide_int_def)
  have b: "(\<Sum>k = 0..1. ccm_HalfedgeCountAtDepth quad_cage k) = 20"
    by (simp add: ccm_HalfedgeCountAtDepth_def sum_0_1)
  have c: "sint (ccs_CumulativeHalfedgeCountAtDepth quad_cage 1)
     \<noteq> (\<Sum>k = 0..1. sint (ccm_HalfedgeCountAtDepth quad_cage k))"
    unfolding a by (simp add: ccm_HalfedgeCountAtDepth_def sum_0_1)
  have d: "sint (ccs_CumulativeHalfedgeCountAtDepth pillow_cage 14)
     \<noteq> (\<Sum>k = 1..14. sint (ccm_HalfedgeCountAtDepth pillow_cage k))"
    unfolding pillow_sum_halfedges pillow_cumulative_halfedge by simp
  show ?thesis
    using a b c d by (intro conjI)
qed

text \<open>
  Within the same bounds \<open>ccs_Create\<close> gives its halfedge, crease and vertex-point
  arrays the numbers of elements of the levels \<open>1..maxDepth\<close>, and stores \<open>maxDepth\<close>
  and the cage.
\<close>

lemma ccs_Create_sizes_are_cumulative_counts:
  assumes "cage_nonneg cage"
    and "3 * (\<Sum>d = 1..maxDepth. cnt_H (int_counts_at_depth cage d)) < 2 ^ 31"
    and "6 * (\<Sum>d = 1..maxDepth. cnt_E (int_counts_at_depth cage d)) < 2 ^ 31"
    and "(\<Sum>d = 1..maxDepth. cnt_V (int_counts_at_depth cage d)) < 2 ^ 31"
  shows "sint (ccs_CumulativeHalfedgeCountAtDepth cage maxDepth)
           = (\<Sum>d = 1..maxDepth. sint (ccm_HalfedgeCountAtDepth cage d)) \<and>
         sint (ccs_CumulativeCreaseCountAtDepth cage maxDepth)
           = (\<Sum>d = 1..maxDepth. sint (ccm_CreaseCountAtDepth cage d)) \<and>
         sint (ccs_CumulativeEdgeCountAtDepth cage maxDepth)
           = (\<Sum>d = 1..maxDepth. sint (ccm_EdgeCountAtDepth cage d)) \<and>
         sint (ccs_CumulativeVertexCountAtDepth cage maxDepth)
           = (\<Sum>d = 1..maxDepth. sint (ccm_VertexCountAtDepth cage d)) \<and>
         int (length (s_halfedges (ccs_Create cage maxDepth)))
           = (\<Sum>d = 1..maxDepth. sint (ccm_HalfedgeCountAtDepth cage d)) \<and>
         int (length (s_creases (ccs_Create cage maxDepth)))
           = (\<Sum>d = 1..maxDepth. sint (ccm_CreaseCountAtDepth cage d)) \<and>
         int (length (s_vertexPoints (ccs_Create cage maxDepth)))
           = (\<Sum>d = 1..maxDepth. sint (ccm_VertexCountAtDepth cage d)) \<and>
         s_maxDepth (ccs_Create cage maxDepth) = maxDepth \<and>
         s_cage (ccs_Create cage maxDepth) = cage"
proof -
  note n0 = int_counts_nonneg [OF assms(1)]
  have H: "sint (ccs_CumulativeHalfedgeCountAtDepth cage maxDepth)
           = (\<Sum>d = 1..maxDepth. sint (ccm_HalfedgeCountAtDepth cage d))"
    unfolding levels_sum_sint(1) [OF assms(1) assms(2)]
    by (rule cumulative_halfedge_sint' [OF assms(1) assms(2)])
  have C: "sint (ccs_CumulativeCreaseCountAtDepth cage maxDepth)
           = (\<Sum>d = 1..maxDepth. sint (ccm_CreaseCountAtDepth cage d))"
    unfolding levels_sum_sint(4) [OF assms(1) assms(3)]
    by (rule cumulative_crease_sint [OF assms(1) sum_crease_fits [OF assms(1) assms(3)]])
  have E: "sint (ccs_CumulativeEdgeCountAtDepth cage maxDepth)
           = (\<Sum>d = 1..maxDepth. sint (ccm_EdgeCountAtDepth cage d))"
    unfolding levels_sum_sint(3) [OF assms(1) assms(3)]
    by (rule cumulative_edge_sint [OF assms(1) assms(3)])
  have V: "sint (ccs_CumulativeVertexCountAtDepth cage maxDepth)
           = (\<Sum>d = 1..maxDepth. sint (ccm_VertexCountAtDepth cage d))"
    unfolding levels_sum_sint(5) [OF assms(1) assms(4)]
    by (rule cumulative_vertex_sint [OF assms(1) assms(4)])
  have H0: "0 \<le> sint (ccs_CumulativeHalfedgeCountAtDepth cage maxDepth)"
    unfolding cumulative_halfedge_sint' [OF assms(1) assms(2)]
    by (rule sum_nonneg_le(1)) (simp add: n0)
  have C0: "0 \<le> sint (ccs_CumulativeCreaseCountAtDepth cage maxDepth)"
    unfolding cumulative_crease_sint [OF assms(1) sum_crease_fits [OF assms(1) assms(3)]]
    by (rule sum_nonneg_le(1)) (simp add: n0)
  have V0: "0 \<le> sint (ccs_CumulativeVertexCountAtDepth cage maxDepth)"
    unfolding cumulative_vertex_sint [OF assms(1) assms(4)]
    by (rule sum_nonneg_le(1)) (simp add: n0)
  have "int (length (s_halfedges (ccs_Create cage maxDepth)))
           = sint (ccs_CumulativeHalfedgeCountAtDepth cage maxDepth)"
    using H0 by (simp add: ccs_Create_def malloc_array_def Let_def)
  moreover have "int (length (s_creases (ccs_Create cage maxDepth)))
           = sint (ccs_CumulativeCreaseCountAtDepth cage maxDepth)"
    using C0 by (simp add: ccs_Create_def malloc_array_def Let_def)
  moreover have "int (length (s_vertexPoints (ccs_Create cage maxDepth)))
           = sint (ccs_CumulativeVertexCountAtDepth cage maxDepth)"
    using V0 by (simp add: ccs_Create_def malloc_array_def Let_def)
  moreover have "s_maxDepth (ccs_Create cage maxDepth) = maxDepth"
    "s_cage (ccs_Create cage maxDepth) = cage"
    by (simp_all add: ccs_Create_def Let_def)
  ultimately show ?thesis
    using H C E V by (simp only: simp_thms)
qed

text \<open>
  Claim C3 fails in the code. \<open>ccs_Create\<close> takes the sizes of its arrays from the
  cumulative functions, as the claim says, but \<open>ccs_CumulativeHalfedgeCountAtDepth\<close>
  forms the product \<open>H1 * tmp\<close> in \<open>int32_t\<close> before it divides by 3. On the two glued
  triangles at \<open>maxDepth = 14\<close> the halfedges of the levels \<open>1..14\<close> are 2147483640,
  which an \<open>int32_t\<close> holds; the product \<open>24 * 268435455\<close> wraps, the function returns
  715827874, and \<open>ccs_Create\<close> allocates that many halfedges. (A cage of 600000
  halfedges at depth 5: 818400000 halfedges in the levels, -613255765 returned.)
\<close>

theorem ccs_Create_sizes_overflow:
  "sint (ccs_CumulativeHalfedgeCountAtDepth pillow_cage 14) = 715827874 \<and>
   (\<Sum>d = 1..14. sint (ccm_HalfedgeCountAtDepth pillow_cage d)) = 2147483640 \<and>
   int (length (s_halfedges (ccs_Create pillow_cage 14))) = 715827874"
proof -
  have a: "sint (ccs_CumulativeHalfedgeCountAtDepth pillow_cage 14) = 715827874"
    by (simp add: pillow_cumulative_halfedge)
  have c: "int (length (s_halfedges (ccs_Create pillow_cage 14))) = 715827874"
    by (simp add: ccs_Create_def malloc_array_def Let_def pillow_cumulative_halfedge)
  show ?thesis
    using a pillow_sum_halfedges c by (intro conjI)
qed

text \<open>
  Where three times the halfedges of the levels \<open>1..depth\<close> is below \<open>2 ^ 31\<close>, the
  cumulative halfedge count is divisible by 4 and the cumulative face count is its
  quarter, the sum of \<open>ccm_FaceCountAtDepth\<close> over the levels \<open>1..depth\<close>.
\<close>

lemma cumulative_face_count_is_quarter:
  assumes "cage_nonneg cage"
    and "3 * (\<Sum>k = 1..depth. cnt_H (int_counts_at_depth cage k)) < 2 ^ 31"
  shows "4 dvd sint (ccs_CumulativeHalfedgeCountAtDepth cage depth) \<and>
         4 * sint (ccs_CumulativeFaceCountAtDepth cage depth)
           = sint (ccs_CumulativeHalfedgeCountAtDepth cage depth) \<and>
         push_bit 2 (ccs_CumulativeFaceCountAtDepth cage depth)
           = ccs_CumulativeHalfedgeCountAtDepth cage depth \<and>
         sint (ccs_CumulativeFaceCountAtDepth cage depth)
           = (\<Sum>k = 1..depth. sint (ccm_FaceCountAtDepth cage k))"
proof -
  have H: "sint (ccs_CumulativeHalfedgeCountAtDepth cage depth)
      = 4 * (\<Sum>k = 1..depth. cnt_F (int_counts_at_depth cage k))"
    unfolding cumulative_halfedge_sint' [OF assms] by (rule sum_faces_quarter)
  have F: "sint (ccs_CumulativeFaceCountAtDepth cage depth)
      = (\<Sum>k = 1..depth. cnt_F (int_counts_at_depth cage k))"
    by (rule cumulative_face_sint [OF assms])
  have "word_of_int (4 * sint (ccs_CumulativeFaceCountAtDepth cage depth))
      = (word_of_int (sint (ccs_CumulativeHalfedgeCountAtDepth cage depth)) :: 32 word)"
    by (simp only: H F)
  then have P: "push_bit 2 (ccs_CumulativeFaceCountAtDepth cage depth)
      = ccs_CumulativeHalfedgeCountAtDepth cage depth"
    by (simp add: push_bit_eq_mult mult.commute)
  show ?thesis
    unfolding levels_sum_sint(2) [OF assms]
    using H F P by simp
qed

text \<open>
  Claim C10 fails in the code. On the two glued triangles at depth 14 the halfedges of
  the levels \<open>1..14\<close> are 2147483640 and their faces 536870910, a quarter of it, both
  of which an \<open>int32_t\<close> holds. \<open>ccs_CumulativeHalfedgeCountAtDepth\<close> forms the product
  \<open>H1 * tmp\<close> in \<open>int32_t\<close> before it divides by 3 and returns 715827874, which 4 does
  not divide, and \<open>ccs_CumulativeFaceCountAtDepth\<close> returns its shift by 2, 178956968.
\<close>

theorem cumulative_face_count_overflow:
  "sint (ccs_CumulativeHalfedgeCountAtDepth pillow_cage 14) = 715827874 \<and>
   \<not> 4 dvd sint (ccs_CumulativeHalfedgeCountAtDepth pillow_cage 14) \<and>
   sint (ccs_CumulativeFaceCountAtDepth pillow_cage 14) = 178956968 \<and>
   (\<Sum>k = 1..14. sint (ccm_FaceCountAtDepth pillow_cage k)) = 536870910"
proof -
  have a: "sint (ccs_CumulativeHalfedgeCountAtDepth pillow_cage 14) = 715827874"
    by (simp add: pillow_cumulative_halfedge)
  have b: "\<not> 4 dvd sint (ccs_CumulativeHalfedgeCountAtDepth pillow_cage 14)"
    unfolding a by presburger
  have c: "sint (ccs_CumulativeFaceCountAtDepth pillow_cage 14) = 178956968"
    by (simp add: pillow_cumulative_face)
  show ?thesis
    using a b c pillow_sum_faces by (intro conjI)
qed

section \<open>Creases and vertex rotation in the hierarchy\<close>

lemma ccs_CumulativeCreaseCountAtDepth_eq:
  "ccs_CumulativeCreaseCountAtDepth cage D = push_bit 1 (ccm_CreaseCount cage) * (2 ^ D - 1)"
  unfolding ccs_CumulativeCreaseCountAtDepth_def Let_def not_push_ones ..

lemma ccs_CumulativeHalfedgeCountAtDepth_eq:
  "ccs_CumulativeHalfedgeCountAtDepth cage D
     = sdiv32 (push_bit 2 (ccm_HalfedgeCount cage) * (4 ^ D - 1)) 3"
  unfolding ccs_CumulativeHalfedgeCountAtDepth_def Let_def not_push_ones_double ..

text \<open>
  Claim C4. For every subd, every depth and every \<open>edgeID\<close> with
  \<open>ccm_CreaseCountAtDepth(cage, depth) <= edgeID\<close> (every such id, whatever its
  distance from the bound), \<open>ccs_CreaseSharpness\<close> returns \<open>0.0f\<close>, and
  \<open>ccs_CreaseNextID\<close> and \<open>ccs_CreasePrevID\<close> return \<open>edgeID\<close>; for an \<open>edgeID\<close> below
  the bound the three functions return the fields of the crease record that the
  stride-addressed read \<open>ccs__Crease\<close> yields.
\<close>

theorem crease_sentinel:
  "(ccm_CreaseCountAtDepth (s_cage subd) depth \<le>s edgeID \<longrightarrow>
      ccs_CreaseSharpness subd edgeID depth = Some 0 \<and>
      ccs_CreaseNextID subd edgeID depth = Some edgeID \<and>
      ccs_CreasePrevID subd edgeID depth = Some edgeID) \<and>
   (edgeID <s ccm_CreaseCountAtDepth (s_cage subd) depth \<longrightarrow>
      ccs_CreaseSharpness subd edgeID depth
        = map_option cr_sharpness (ccs__Crease subd edgeID depth) \<and>
      ccs_CreaseNextID subd edgeID depth
        = map_option cr_nextID (ccs__Crease subd edgeID depth) \<and>
      ccs_CreasePrevID subd edgeID depth
        = map_option cr_prevID (ccs__Crease subd edgeID depth))"
  by (simp add: ccs_CreaseSharpness_def ccs_CreaseNextID_def ccs_CreasePrevID_def
      ccs_CreaseSharpness_Fast_def ccs_CreaseNextID_Fast_def ccs_CreasePrevID_Fast_def
      Let_def word_sle_eq word_sless_alt)

lemma quad_subd1_crease_count: "ccm_CreaseCountAtDepth (s_cage quad_subd1) 1 = 8"
  by (simp add: quad_subd1_def ccm_CreaseCountAtDepth_def ccm_CreaseCount_def)

lemma quad_subd1_crease_0:
  "ccs__Crease quad_subd1 0 1 = Some \<lparr>cr_nextID = 1, cr_prevID = 0, cr_sharpness = 0x3F800000\<rparr>"
  by (simp add: ccs__Crease_def ccs_CumulativeCreaseCountAtDepth_eq array_read_def quad_subd1_def)

text \<open>
  On the quad at depth 1 the bound is 8 and there are 12 edges: the ids 8 and 11 get the
  fallback, the id 0 the stored record.
\<close>

theorem crease_sentinel_witness:
  "ccm_CreaseCountAtDepth (s_cage quad_subd1) 1 \<le>s 8 \<and>
   ccs_CreaseSharpness quad_subd1 8 1 = Some 0 \<and>
   ccs_CreaseNextID quad_subd1 8 1 = Some 8 \<and>
   ccs_CreasePrevID quad_subd1 8 1 = Some 8 \<and>
   ccm_CreaseCountAtDepth (s_cage quad_subd1) 1 \<le>s 11 \<and>
   ccs_CreaseSharpness quad_subd1 11 1 = Some 0 \<and>
   ccs_CreaseNextID quad_subd1 11 1 = Some 11 \<and>
   ccs_CreasePrevID quad_subd1 11 1 = Some 11 \<and>
   0 <s ccm_CreaseCountAtDepth (s_cage quad_subd1) 1 \<and>
   ccs_CreaseSharpness quad_subd1 0 1 = Some 0x3F800000 \<and>
   ccs_CreaseNextID quad_subd1 0 1 = Some 1 \<and>
   ccs_CreasePrevID quad_subd1 0 1 = Some 0"
proof -
  have h8: "ccm_CreaseCountAtDepth (s_cage quad_subd1) 1 \<le>s 8"
    and h11: "ccm_CreaseCountAtDepth (s_cage quad_subd1) 1 \<le>s 11"
    and h0: "0 <s ccm_CreaseCountAtDepth (s_cage quad_subd1) 1"
    unfolding quad_subd1_crease_count by (simp_all add: word_sless_alt)
  note a = crease_sentinel [of quad_subd1 1 8, THEN conjunct1, rule_format, OF h8]
  note b = crease_sentinel [of quad_subd1 1 11, THEN conjunct1, rule_format, OF h11]
  note c = crease_sentinel [of quad_subd1 1 0, THEN conjunct2, rule_format, OF h0,
      unfolded quad_subd1_crease_0 option.map_sel option.simps cc_Crease.simps]
  show ?thesis
    using h8 h11 h0 a b c by (intro conjI) blast+
qed

text \<open>
  The rotation around a vertex. \<open>ccm_NextVertexHalfedgeID\<close> tests the twin before it
  takes its next halfedge; \<open>ccs_NextVertexHalfedgeID\<close> applies \<open>ccm_HalfedgeNextID_Quad\<close>
  to the twin whatever it is, so a negative twin gives a negative id (\<open>-4\<close> for the
  twin \<open>-1\<close>). Both backward rotations are the twin of the previous halfedge.
\<close>

lemma ccs_NextVertexHalfedgeID_no_guard:
  "ccs_NextVertexHalfedgeID subd h depth
     = map_option ccm_HalfedgeNextID_Quad (ccs_HalfedgeTwinID subd h depth)"
  by (simp add: ccs_NextVertexHalfedgeID_def ccs_HalfedgeNextID_def split: option.split)

lemma next_quad_of_minus_1: "ccm_HalfedgeNextID_Quad (- 1) = - 4"
  by (simp add: ccm_HalfedgeNextID_Quad_def ccm__ScrollFaceHalfedgeID_Quad_def)

lemma sless_0_iff_bit_31: "(t :: 32 word) <s 0 \<longleftrightarrow> bit t 31"
  using bit_last_iff [of t] by (simp add: word_sless_alt)

lemma next_quad_negative:
  assumes "t <s 0"
  shows "ccm_HalfedgeNextID_Quad t <s 0"
proof -
  have b: "bit t 31" using assms by (simp only: sless_0_iff_bit_31)
  have "bit (ccm_HalfedgeNextID_Quad t) 31"
    unfolding ccm_HalfedgeNextID_Quad_def ccm__ScrollFaceHalfedgeID_Quad_def Let_def
    using b by (simp add: bit_simps)
  then show ?thesis by (simp only: sless_0_iff_bit_31)
qed

lemma ccm_NextVertexHalfedgeID_guard:
  assumes "ccm_HalfedgeTwinID mesh h = Some t"
  shows "ccm_NextVertexHalfedgeID mesh h
       = (if 0 \<le>s t then ccm_HalfedgeNextID mesh t else Some (- 1))"
  using assms by (simp add: ccm_NextVertexHalfedgeID_def)

lemma ccm_PrevVertexHalfedgeID_twin_of_prev:
  assumes "ccm_HalfedgePrevID mesh h = Some p"
  shows "ccm_PrevVertexHalfedgeID mesh h = ccm_HalfedgeTwinID mesh p"
  using assms by (simp add: ccm_PrevVertexHalfedgeID_def)

lemma ccs_PrevVertexHalfedgeID_twin_of_prev:
  "ccs_PrevVertexHalfedgeID subd h depth
     = ccs_HalfedgeTwinID subd (ccs_HalfedgePrevID subd h depth) depth"
  by (simp add: ccs_PrevVertexHalfedgeID_def)

lemma ccs_NextVertexHalfedgeID_boundary_negative:
  assumes "ccs_HalfedgeTwinID subd h depth = Some t" and "t <s 0"
  shows "\<exists>r. ccs_NextVertexHalfedgeID subd h depth = Some r \<and> r <s 0"
  using assms(1) next_quad_negative [OF assms(2)]
  by (simp add: ccs_NextVertexHalfedgeID_no_guard)

lemma ccs_NextVertexHalfedgeID_twin_minus_1:
  assumes "ccs_HalfedgeTwinID subd h depth = Some (- 1)"
  shows "ccs_NextVertexHalfedgeID subd h depth = Some (- 4)"
  using assms by (simp add: ccs_NextVertexHalfedgeID_no_guard next_quad_of_minus_1)

text \<open>
  Claim C7 fails in \<open>ccs_NextVertexHalfedgeID\<close>. On the boundary halfedge 0 of the quad,
  whose twin is \<open>-1\<close> at both levels, \<open>ccm_NextVertexHalfedgeID\<close> returns \<open>-1\<close>, as does
  its guard \<open>twinID >= 0 ? ... : -1\<close>; \<open>ccs_NextVertexHalfedgeID\<close> has no guard and
  returns \<open>ccs_HalfedgeNextID\<close> of \<open>-1\<close>, which is \<open>-4\<close>.
\<close>

theorem ccs_NextVertexHalfedgeID_boundary:
  "ccm_HalfedgeTwinID quad_cage 0 = Some (- 1) \<and>
   ccm_NextVertexHalfedgeID quad_cage 0 = Some (- 1) \<and>
   ccs_HalfedgeTwinID quad_subd1 0 1 = Some (- 1) \<and>
   ccs_NextVertexHalfedgeID quad_subd1 0 1 = Some (- 4)"
  by (simp add: ccm_NextVertexHalfedgeID_def ccm_HalfedgeTwinID_def ccm__Halfedge_def
      array_read_def quad_cage_def ccs_NextVertexHalfedgeID_def ccs_HalfedgeTwinID_def
      ccs__Halfedge_def quad_subd1_def ccs_CumulativeHalfedgeCountAtDepth_eq sdiv32_def
      signed_divide_int_def ccs_HalfedgeNextID_def ccm_HalfedgeNextID_Quad_def
      ccm__ScrollFaceHalfedgeID_Quad_def ccm_HalfedgeCount_def)

section \<open>Quad topology from the halfedge id\<close>

lemma three_eq_mask: "(3 :: 32 word) = mask 2"
  by (simp add: mask_eq_exp_minus_1)

lemma and_3_eq_take_bit: "(h :: 32 word) AND 3 = take_bit 2 h"
  by (simp add: three_eq_mask take_bit_eq_mask)

lemma take_bit_add_word32:
  "take_bit 2 (take_bit 2 (a :: 32 word) + take_bit 2 b) = take_bit 2 (a + b)"
  by transfer (simp add: take_bit_add min_def take_bit_take_bit)

lemma take_bit_add_left: "take_bit 2 (take_bit 2 (h :: 32 word) + d) = take_bit 2 (h + d)"
proof -
  have "take_bit 2 (take_bit 2 h + d) = take_bit 2 (take_bit 2 (take_bit 2 h) + take_bit 2 d)"
    by (simp only: take_bit_add_word32)
  also have "\<dots> = take_bit 2 (take_bit 2 h + take_bit 2 d)"
    by simp
  finally show ?thesis by (simp only: take_bit_add_word32)
qed

lemma scroll_eq:
  "ccm__ScrollFaceHalfedgeID_Quad h d = (h AND NOT (mask 2)) OR take_bit 2 (h + d)"
  unfolding ccm__ScrollFaceHalfedgeID_Quad_def Let_def and_3_eq_take_bit take_bit_add_left
  by (simp only: three_eq_mask)


lemma scroll_high:
  "(((h :: 32 word) AND NOT (mask 2)) OR take_bit 2 x) AND NOT (mask 2) = h AND NOT (mask 2)"
  by (rule bit_eqI) (auto simp: bit_simps)

lemma scroll_low:
  "take_bit 2 (((h :: 32 word) AND NOT (mask 2)) OR take_bit 2 x) = take_bit 2 x"
  by (rule bit_eqI) (auto simp: bit_simps)

lemma high_or_low: "((h :: 32 word) AND NOT (mask 2)) OR take_bit 2 h = h"
  by (rule bit_eqI) (auto simp: bit_simps)


lemma scroll_scroll:
  "ccm__ScrollFaceHalfedgeID_Quad (ccm__ScrollFaceHalfedgeID_Quad h d) e
     = ccm__ScrollFaceHalfedgeID_Quad h (d + e)"
proof -
  have "take_bit 2 (((h AND NOT (mask 2)) OR take_bit 2 (h + d)) + e)
      = take_bit 2 (take_bit 2 ((h AND NOT (mask 2)) OR take_bit 2 (h + d)) + e)"
    by (simp only: take_bit_add_left)
  also have "\<dots> = take_bit 2 (h + d + e)"
    by (simp only: scroll_low take_bit_add_left)
  finally show ?thesis
    by (simp only: scroll_eq scroll_high add.assoc)
qed

lemma scroll_0: "ccm__ScrollFaceHalfedgeID_Quad h 0 = h"
  by (simp add: scroll_eq high_or_low)

lemma scroll_4: "ccm__ScrollFaceHalfedgeID_Quad h 4 = h"
proof -
  have "take_bit 2 (h + 4) = take_bit 2 (take_bit 2 h + take_bit 2 (4 :: 32 word))"
    by (simp only: take_bit_add_word32)
  also have "take_bit 2 (4 :: 32 word) = 0" by simp
  finally show ?thesis by (simp add: scroll_eq high_or_low)
qed

lemma scroll_face:
  "signed_drop_bit 2 (ccm__ScrollFaceHalfedgeID_Quad h d) = signed_drop_bit 2 h"
  unfolding scroll_eq
  by (rule bit_eqI) (auto simp: bit_simps bit_signed_drop_bit_iff)


lemma scroll_quad:
  "ccm__ScrollFaceHalfedgeID_Quad (4 * f) d = 4 * f + take_bit 2 d"
proof -
  have f4: "4 * f = push_bit 2 f" by (simp add: push_bit_eq_mult)
  have hi: "push_bit 2 f AND NOT (mask 2) = push_bit 2 f"
    by (rule bit_eqI) (auto simp: bit_simps)
  have "take_bit 2 (push_bit 2 f + d) = take_bit 2 (take_bit 2 (push_bit 2 f) + d)"
    by (simp only: take_bit_add_left)
  also have "\<dots> = take_bit 2 d" by (simp add: take_bit_push_bit)
  finally have lo: "take_bit 2 (push_bit 2 f + d) = take_bit 2 d" .
  have "push_bit 2 f AND take_bit 2 d = 0"
    by (rule bit_eqI) (auto simp: bit_simps)
  then have "push_bit 2 f + take_bit 2 d = push_bit 2 f OR take_bit 2 d"
    by (rule disjunctive_add_eq_or)
  then show ?thesis
    by (simp only: f4 scroll_eq hi lo)
qed


text \<open>
  Claim C6. For every halfedge id \<open>h\<close> of the hierarchy, at every depth:
  \<open>ccs_HalfedgeFaceID\<close> is \<open>h >> 2\<close> (the arithmetic shift, \<open>h\<close> divided by 4 rounded
  down); \<open>ccs_HalfedgeNextID\<close> and \<open>ccs_HalfedgePrevID\<close> add 1 to and subtract 1 from
  the low 2 bits modulo 4 and keep the other bits, so they keep the face id; the ids
  \<open>4f, 4f+1, 4f+2, 4f+3\<close> have one face id and \<open>ccs_HalfedgeNextID\<close> runs through them
  in a cycle; \<open>ccs_HalfedgePrevID\<close> is the inverse of \<open>ccs_HalfedgeNextID\<close>, and four
  steps of \<open>ccs_HalfedgeNextID\<close> come back to \<open>h\<close>.
\<close>

theorem quad_halfedge_topology:
  "ccs_HalfedgeFaceID subd h depth = signed_drop_bit 2 h \<and>
   sint (ccs_HalfedgeFaceID subd h depth) = sint h div 4 \<and>
   ccs_HalfedgeNextID subd h depth = (h AND NOT 3) OR ((h + 1) AND 3) \<and>
   ccs_HalfedgePrevID subd h depth = (h AND NOT 3) OR ((h - 1) AND 3) \<and>
   ccs_HalfedgeFaceID subd (ccs_HalfedgeNextID subd h depth) depth
     = ccs_HalfedgeFaceID subd h depth \<and>
   ccs_HalfedgeFaceID subd (ccs_HalfedgePrevID subd h depth) depth
     = ccs_HalfedgeFaceID subd h depth \<and>
   ccs_HalfedgeNextID subd (4 * f) depth = 4 * f + 1 \<and>
   ccs_HalfedgeNextID subd (4 * f + 1) depth = 4 * f + 2 \<and>
   ccs_HalfedgeNextID subd (4 * f + 2) depth = 4 * f + 3 \<and>
   ccs_HalfedgeNextID subd (4 * f + 3) depth = 4 * f \<and>
   ccs_HalfedgeFaceID subd (4 * f + 1) depth = ccs_HalfedgeFaceID subd (4 * f) depth \<and>
   ccs_HalfedgeFaceID subd (4 * f + 2) depth = ccs_HalfedgeFaceID subd (4 * f) depth \<and>
   ccs_HalfedgeFaceID subd (4 * f + 3) depth = ccs_HalfedgeFaceID subd (4 * f) depth \<and>
   ccs_HalfedgePrevID subd (ccs_HalfedgeNextID subd h depth) depth = h \<and>
   ccs_HalfedgeNextID subd (ccs_HalfedgePrevID subd h depth) depth = h \<and>
   ccs_HalfedgeNextID subd (ccs_HalfedgeNextID subd (ccs_HalfedgeNextID subd
     (ccs_HalfedgeNextID subd h depth) depth) depth) depth = h"
proof -
  note defs = ccs_HalfedgeFaceID_def ccs_HalfedgeNextID_def ccs_HalfedgePrevID_def
    ccm_HalfedgeFaceID_Quad_def ccm_HalfedgeNextID_Quad_def ccm_HalfedgePrevID_Quad_def
  have q1: "4 * f + 1 = ccm__ScrollFaceHalfedgeID_Quad (4 * f) 1"
    and q2: "4 * f + 2 = ccm__ScrollFaceHalfedgeID_Quad (4 * f) 2"
    and q3: "4 * f + 3 = ccm__ScrollFaceHalfedgeID_Quad (4 * f) 3"
    by (simp_all add: scroll_quad)
  have a1: "ccs_HalfedgeFaceID subd h depth = signed_drop_bit 2 h"
    by (simp add: defs)
  have a2: "sint (ccs_HalfedgeFaceID subd h depth) = sint h div 4"
    by (simp add: defs sint_signed_drop_bit_eq drop_bit_eq_div)
  have a3: "ccs_HalfedgeNextID subd h depth = (h AND NOT 3) OR ((h + 1) AND 3)"
    by (simp add: defs scroll_eq three_eq_mask take_bit_eq_mask)
  have a4: "ccs_HalfedgePrevID subd h depth = (h AND NOT 3) OR ((h - 1) AND 3)"
    by (simp add: defs scroll_eq three_eq_mask take_bit_eq_mask)
  have a5: "ccs_HalfedgeFaceID subd (ccs_HalfedgeNextID subd h depth) depth
     = ccs_HalfedgeFaceID subd h depth"
    by (simp only: defs scroll_face)
  have a6: "ccs_HalfedgeFaceID subd (ccs_HalfedgePrevID subd h depth) depth
     = ccs_HalfedgeFaceID subd h depth"
    by (simp only: defs scroll_face)
  have b0: "ccs_HalfedgeNextID subd (4 * f) depth = 4 * f + 1"
    by (simp add: defs scroll_quad)
  have b1: "ccs_HalfedgeNextID subd (4 * f + 1) depth = 4 * f + 2"
    unfolding defs q1 scroll_scroll by (simp add: scroll_quad)
  have b2: "ccs_HalfedgeNextID subd (4 * f + 2) depth = 4 * f + 3"
    unfolding defs q2 scroll_scroll by (simp add: scroll_quad)
  have b3: "ccs_HalfedgeNextID subd (4 * f + 3) depth = 4 * f"
    unfolding defs q3 scroll_scroll by (simp add: scroll_4)
  have f1: "ccs_HalfedgeFaceID subd (4 * f + 1) depth = ccs_HalfedgeFaceID subd (4 * f) depth"
    unfolding defs q1 by (simp only: scroll_face)
  have f2: "ccs_HalfedgeFaceID subd (4 * f + 2) depth = ccs_HalfedgeFaceID subd (4 * f) depth"
    unfolding defs q2 by (simp only: scroll_face)
  have f3: "ccs_HalfedgeFaceID subd (4 * f + 3) depth = ccs_HalfedgeFaceID subd (4 * f) depth"
    unfolding defs q3 by (simp only: scroll_face)
  have i1: "ccs_HalfedgePrevID subd (ccs_HalfedgeNextID subd h depth) depth = h"
    by (simp add: defs scroll_scroll scroll_0)
  have i2: "ccs_HalfedgeNextID subd (ccs_HalfedgePrevID subd h depth) depth = h"
    by (simp add: defs scroll_scroll scroll_0)
  have i4: "ccs_HalfedgeNextID subd (ccs_HalfedgeNextID subd (ccs_HalfedgeNextID subd
     (ccs_HalfedgeNextID subd h depth) depth) depth) depth = h"
    by (simp add: defs scroll_scroll scroll_4)
  show ?thesis
    using a1 a2 a3 a4 a5 a6 b0 b1 b2 b3 f1 f2 f3 i1 i2 i4 by (intro conjI)
qed

section \<open>The edge-to-halfedge resolver\<close>

lemma and_1_of_bool: "(e :: 32 word) AND 1 = of_bool (odd e)"
  by (simp add: and_one_eq mod_2_eq_odd)

lemma and_1_eq_1_iff: "(e :: 32 word) AND 1 = 1 \<longleftrightarrow> odd e"
  by (simp add: and_1_of_bool)

lemma push_or_eq_add:
  "push_bit 1 (heap :: 32 word) OR of_bool b = 2 * heap + of_bool b"
proof -
  have "push_bit 1 heap AND of_bool b = (0 :: 32 word)"
    by (rule bit_eqI) (auto simp: bit_simps bit_0)
  then have "push_bit 1 heap + of_bool b = push_bit 1 heap OR (of_bool b :: 32 word)"
    by (rule disjunctive_add_eq_or)
  moreover have "push_bit 1 heap = 2 * heap" by (simp add: push_bit_eq_mult)
  ultimately show ?thesis by (simp only:)
qed

lemma unat_push_low:
  fixes heap :: "32 word"
  assumes "unat heap < 2 ^ 31"
  shows "unat (2 * heap + of_bool b) = 2 * unat heap + of_bool b"
proof -
  have "unat (2 * heap + of_bool b) = (2 * unat heap + of_bool b) mod 2 ^ 32"
    by (simp add: unat_word_ariths mod_simps)
  also have "\<dots> = 2 * unat heap + of_bool b"
    using assms by simp
  finally show ?thesis .
qed

lemma drop_push_low:
  fixes heap :: "32 word"
  assumes "unat heap < 2 ^ 31"
  shows "drop_bit 1 (2 * heap + of_bool b) = heap"
proof -
  have "unat (drop_bit 1 (2 * heap + of_bool b)) = unat (2 * heap + of_bool b) div 2"
    by (simp add: drop_bit_eq_div unat_div)
  also have "\<dots> = unat heap"
    unfolding unat_push_low [OF assms] by simp
  finally show ?thesis by (simp add: word_unat_eq_iff)
qed

lemma low_push_low:
  fixes heap :: "32 word"
  shows "(2 * heap + of_bool b) AND 1 = of_bool b"
  by (simp add: and_1_of_bool)


lemma read_heap_1: "ccs_EdgeToHalfedgeID_read 1 r = r"
  by (subst ccs_EdgeToHalfedgeID_read.simps) simp

lemma read_heap_push:
  fixes heap :: "32 word"
  assumes "unat heap < 2 ^ 31" and "0 < unat heap"
  shows "ccs_EdgeToHalfedgeID_read (2 * heap + of_bool b) r
       = ccs_EdgeToHalfedgeID_read heap (path_step b r)"
proof -
  have "unat (2 * heap + of_bool b) = 2 * unat heap + of_bool b"
    by (rule unat_push_low [OF assms(1)])
  then have "1 < unat (2 * heap + of_bool b)"
    using assms(2) by simp
  then have gt: "1 < 2 * heap + of_bool b"
    by (simp add: word_less_nat_alt)
  have low: "(2 * heap + of_bool b) AND 1 = 1 \<longleftrightarrow> b"
    by (simp add: low_push_low)
  show ?thesis
    by (subst ccs_EdgeToHalfedgeID_read.simps)
      (simp only: gt if_True drop_push_low [OF assms(1)] low path_step_def)
qed

lemma build_heap_step:
  "push_bit 1 (heap :: 32 word) OR (e AND 1) = 2 * heap + of_bool (e AND 1 = 1)"
proof -
  have "e AND 1 = of_bool (e AND 1 = 1)"
    unfolding and_1_eq_1_iff by (rule and_1_of_bool)
  then have "push_bit 1 heap OR (e AND 1) = push_bit 1 heap OR of_bool (e AND 1 = 1)"
    by (rule arg_cong)
  then show ?thesis by (simp only: push_or_eq_add)
qed

lemma pow_room:
  assumes "unat (heap :: 32 word) < 2 ^ k" "k + n \<le> 32" "0 < n"
  shows "unat heap < 2 ^ 31"
proof -
  have "k \<le> 31" using assms(2,3) by simp
  then have "(2::nat) ^ k \<le> 2 ^ 31" by (intro power_increasing) simp_all
  then show ?thesis using assms(1) by simp
qed


lemma build_spoke:
  "2 * ccm_EdgeCountAtDepth_Fast cage (Suc n) \<le>s edgeID \<Longrightarrow>
   fst (ccs_EdgeToHalfedgeID_build cage (Suc (Suc n)) heap edgeID) = heap \<and>
   ccs_EdgeToHalfedgeID_path cage (Suc (Suc n)) edgeID = []"
  by (simp add: Let_def)

lemma build_descend:
  "\<not> 2 * ccm_EdgeCountAtDepth_Fast cage (Suc n) \<le>s edgeID \<Longrightarrow>
   ccs_EdgeToHalfedgeID_build cage (Suc (Suc n)) heap edgeID
     = ccs_EdgeToHalfedgeID_build cage (Suc n) (2 * heap + of_bool (edgeID AND 1 = 1))
         (signed_drop_bit 1 edgeID) \<and>
   ccs_EdgeToHalfedgeID_path cage (Suc (Suc n)) edgeID
     = (edgeID AND 1 = 1) # ccs_EdgeToHalfedgeID_path cage (Suc n) (signed_drop_bit 1 edgeID)"
  by (simp only: ccs_EdgeToHalfedgeID_build.simps ccs_EdgeToHalfedgeID_path.simps Let_def
      build_heap_step if_False simp_thms)


lemma build_props:
  "0 < unat heap \<Longrightarrow> unat heap < 2 ^ k \<Longrightarrow> k + (d - 1) \<le> 32 \<Longrightarrow>
   unat (fst (ccs_EdgeToHalfedgeID_build cage d heap e))
       = foldl (\<lambda>h b. 2 * h + of_bool b) (unat heap) (ccs_EdgeToHalfedgeID_path cage d e)
   \<and> ccs_EdgeToHalfedgeID_read (fst (ccs_EdgeToHalfedgeID_build cage d heap e)) r
       = ccs_EdgeToHalfedgeID_read heap (replay_path (ccs_EdgeToHalfedgeID_path cage d e) r)"
proof (induction d arbitrary: heap e k r)
  case 0
  show ?case by (simp add: replay_path_def)
next
  case (Suc m)
  show ?case
  proof (cases m)
    case 0
    then show ?thesis by (simp add: replay_path_def)
  next
    case (Suc n)
    show ?thesis
    proof (cases "2 * ccm_EdgeCountAtDepth_Fast cage (Suc n) \<le>s e")
      case True
      show ?thesis
        unfolding Suc using build_spoke [OF True, of heap] by (simp add: replay_path_def)
    next
      case False
      let ?b = "e AND 1 = 1"
      let ?heap' = "2 * heap + of_bool ?b"
      let ?e' = "signed_drop_bit 1 e"
      have h31: "unat heap < 2 ^ 31"
        using Suc.prems pow_room [of heap k "Suc n"] by (simp add: Suc)
      have u: "unat ?heap' = 2 * unat heap + of_bool ?b"
        by (rule unat_push_low [OF h31])
      have p1: "0 < unat ?heap'" using u Suc.prems(1) by simp
      have p2: "unat ?heap' < 2 ^ Suc k" using u Suc.prems(2) by simp
      have p3: "Suc k + (m - 1) \<le> 32" using Suc.prems(3) by (simp add: Suc)
      note IH = Suc.IH [OF p1 p2 p3, of ?e']
      have rd: "ccs_EdgeToHalfedgeID_read ?heap' x
          = ccs_EdgeToHalfedgeID_read heap (path_step ?b x)" for x
        by (rule read_heap_push [OF h31 Suc.prems(1)])
      have bd: "ccs_EdgeToHalfedgeID_build cage (Suc m) heap e
          = ccs_EdgeToHalfedgeID_build cage m ?heap' ?e'"
        and pd: "ccs_EdgeToHalfedgeID_path cage (Suc m) e
          = ?b # ccs_EdgeToHalfedgeID_path cage m ?e'"
        using build_descend [OF False, of heap] by (simp_all only: Suc)
      show ?thesis
        unfolding bd pd using IH by (simp add: u rd replay_path_def)
    qed
  qed
qed

lemma build_root:
  "(case ccs_EdgeToHalfedgeID_build cage d heap e of
      (heap', e', hd', r0) \<Rightarrow> if hd' = 1 then first cage e' else Some r0)
   = ccs_EdgeToHalfedgeID_root first cage d e"
  by (induction cage d heap e rule: ccs_EdgeToHalfedgeID_build.induct)
    (simp_all add: Let_def)

lemma build_read_1:
  assumes "d \<le> 32"
  shows "ccs_EdgeToHalfedgeID_read (fst (ccs_EdgeToHalfedgeID_build cage d 1 e)) r
       = replay_path (ccs_EdgeToHalfedgeID_path cage d e) r"
    and "unat (fst (ccs_EdgeToHalfedgeID_build cage d 1 e))
       = heap_of_path (ccs_EdgeToHalfedgeID_path cage d e)"
proof -
  have a: "0 < unat (1 :: 32 word)" and b: "unat (1 :: 32 word) < 2 ^ 1" by simp_all
  have c: "1 + (d - 1) \<le> 32" using assms by simp
  show "ccs_EdgeToHalfedgeID_read (fst (ccs_EdgeToHalfedgeID_build cage d 1 e)) r
       = replay_path (ccs_EdgeToHalfedgeID_path cage d e) r"
    using build_props [OF a b c, of cage e r] by (simp add: read_heap_1)
  show "unat (fst (ccs_EdgeToHalfedgeID_build cage d 1 e))
       = heap_of_path (ccs_EdgeToHalfedgeID_path cage d e)"
    using build_props [OF a b c, of cage e r] by (simp add: heap_of_path_def)
qed

lemma resolver_eq_replay:
  assumes "d \<le> 32"
  shows "ccs_EdgeToHalfedgeID first subd e d
       = map_option (replay_path (ccs_EdgeToHalfedgeID_path (s_cage subd) d e))
           (ccs_EdgeToHalfedgeID_root first (s_cage subd) d e)"
proof -
  obtain heap' e' hd' r0
    where b: "ccs_EdgeToHalfedgeID_build (s_cage subd) d 1 e = (heap', e', hd', r0)"
    by (cases "ccs_EdgeToHalfedgeID_build (s_cage subd) d 1 e") auto
  have rt: "(if hd' = 1 then first (s_cage subd) e' else Some r0)
      = ccs_EdgeToHalfedgeID_root first (s_cage subd) d e"
    using build_root [where cage = "s_cage subd" and d = d and heap = 1 and e = e
        and first = first] by (simp add: b)
  have rd: "ccs_EdgeToHalfedgeID_read heap' r
      = replay_path (ccs_EdgeToHalfedgeID_path (s_cage subd) d e) r" for r
    using build_read_1(1) [OF assms, of "s_cage subd" e r] by (simp add: b)
  show ?thesis
    unfolding ccs_EdgeToHalfedgeID_def b
    by (simp only: prod.case rt) (simp add: rd split: option.split)
qed

lemma replay_path_Nil: "replay_path [] = (\<lambda>r. r)"
  by (simp add: replay_path_def fun_eq_iff)

lemma by_parity_eq_replay:
  "1 \<le> d \<Longrightarrow>
   ccs_EdgeToHalfedgeID_by_parity first subd e d
     = map_option (replay_path (ccs_EdgeToHalfedgeID_path (s_cage subd) d e))
         (ccs_EdgeToHalfedgeID_root first (s_cage subd) d e)"
proof (induction d arbitrary: e)
  case 0
  then show ?case by simp
next
  case (Suc m)
  show ?case
  proof (cases m)
    case 0
    then show ?thesis by (simp add: replay_path_Nil option.map_ident)
  next
    case (Suc n)
    note IH = Suc.IH [of "signed_drop_bit 1 e", unfolded Suc, simplified]
    show ?thesis
    proof (cases "2 * ccm_EdgeCountAtDepth_Fast (s_cage subd) (Suc n) \<le>s e")
      case True
      then show ?thesis by (simp add: Suc Let_def replay_path_def)
    next
      case False
      then show ?thesis
        using IH
        by (simp add: Suc Let_def replay_path_def path_step_def split: option.split)
    qed
  qed
qed

lemma edge_count_beyond_32:
  assumes "33 \<le> depth"
  shows "ccm_EdgeCountAtDepth cage depth = 0"
proof -
  have "push_bit (depth - 1) (x :: 32 word) = 0" for x
    by (rule bit_eqI) (use assms in \<open>auto simp: bit_simps\<close>)
  with assms show ?thesis
    by (simp add: ccm_EdgeCountAtDepth_def ccm_EdgeCountAtDepth_Fast_def Let_def)
qed

text \<open>
  Claim C5, as amended. For every subd, every \<open>first\<close>, every depth \<open>>= 1\<close> and every
  \<open>edgeID\<close> in range, \<open>0 <= edgeID < ccm_EdgeCountAtDepth(cage, depth)\<close> (up to depth 32:
  every \<open>edgeID\<close>, in range or not; from depth 33 on the 32-bit edge count is 0, its
  last shift being one by 32 or more, and no \<open>edgeID\<close> is in range), the compiled, iterative \<open>ccs_EdgeToHalfedgeID\<close> equals the
  recursive definition that chooses by the lowest bit of \<open>edgeID\<close>: at depth 1 it is
  \<open>first\<close> (the edge-to-halfedge map of the cage composed with one subdivision step);
  for \<open>edgeID\<close> in the spoke band, \<open>edgeID >= 2 * E\<close> with \<open>E\<close> the edge count of
  \<open>depth - 1\<close>, it is \<open>max (4h + 1) (4 next(h) + 2)\<close> with \<open>h = edgeID - 2 * E\<close>;
  otherwise, with \<open>r\<close> the result for \<open>(edgeID >> 1, depth - 1)\<close>, it is
  \<open>4 next(r) + 3\<close> for an odd \<open>edgeID\<close> and \<open>4 r\<close> for an even one.
\<close>

theorem ccs_EdgeToHalfedgeID_by_parity_eq:
  assumes "1 \<le> depth"
    and "depth \<le> 32 \<or>
         (0 \<le>s edgeID \<and> edgeID <s ccm_EdgeCountAtDepth (s_cage subd) depth)"
  shows "ccs_EdgeToHalfedgeID first subd edgeID depth
       = ccs_EdgeToHalfedgeID_by_parity first subd edgeID depth"
proof (cases "depth \<le> 32")
  case True
  then show ?thesis
    by (simp only: resolver_eq_replay [OF True] by_parity_eq_replay [OF assms(1)])
next
  case False
  then have "33 \<le> depth" by simp
  then have "ccm_EdgeCountAtDepth (s_cage subd) depth = 0" by (rule edge_count_beyond_32)
  with assms(2) False have "0 \<le>s edgeID" "edgeID <s 0" by simp_all
  then show ?thesis by (simp add: word_sle_eq word_sless_alt)
qed

lemma s_cage_ccs_Create: "s_cage (ccs_Create cage d) = cage"
  by (simp add: ccs_Create_def Let_def)

lemma quad_edge_count_1: "ccm_EdgeCountAtDepth_Fast quad_cage (Suc 0) = 12"
  by (simp add: ccm_EdgeCountAtDepth_Fast_closed [of quad_cage 0, simplified])

lemma quad_first_0: "ccs__EdgeToHalfedgeID_First quad_cage 0 = Some 0"
  by (simp add: ccs__EdgeToHalfedgeID_First_def ccm_EdgeToHalfedgeID_def array_read_def
      word_sle_eq quad_cage_def ccm_EdgeCount_def)

lemma quad_resolver_1_2:
  "ccs_EdgeToHalfedgeID ccs__EdgeToHalfedgeID_First (ccs_Create quad_cage 2) 1 2 = Some 7"
proof -
  have c: "s_cage (ccs_Create quad_cage 2) = quad_cage"
    by (simp add: ccs_Create_def Let_def)
  have b: "ccs_EdgeToHalfedgeID_build quad_cage 2 1 1 = (3, 0, 1, 0)"
    by (simp add: numeral_2_eq_2 quad_edge_count_1 word_sle_eq)
  have r: "ccs_EdgeToHalfedgeID_read 3 0 = 7"
    by (simp add: ccs_EdgeToHalfedgeID_read.simps [of 3] ccs_EdgeToHalfedgeID_read.simps [of 1]
        ccm_HalfedgeNextID_Quad_def ccm__ScrollFaceHalfedgeID_Quad_def)
  show ?thesis
    by (simp add: ccs_EdgeToHalfedgeID_def c b quad_first_0 r)
qed

lemma quad_recursive_1_2:
  "ccs_EdgeToHalfedgeID_recursive ccs__EdgeToHalfedgeID_First (ccs_Create quad_cage 2) 1 2 = Some 0"
proof -
  show ?thesis
    by (simp add: numeral_2_eq_2 s_cage_ccs_Create quad_edge_count_1 word_sle_eq quad_first_0)
qed

lemma quad_edge_count_2: "ccm_EdgeCountAtDepth (s_cage (ccs_Create quad_cage 2)) 2 = 40"
  by (simp add: s_cage_ccs_Create ccm_EdgeCountAtDepth_def ccm_EdgeCountAtDepth_Fast_def Let_def
      quad_cage_def ccm_EdgeCount_def ccm_HalfedgeCount_def)

text \<open>
  On the quad at depth 2, which has 40 edges, edge 1: both give halfedge 7, the child
  \<open>4 * 1 + 3\<close> of the level-1 halfedge 1.
\<close>

theorem ccs_EdgeToHalfedgeID_by_parity_eq_witness:
  "(1::nat) \<le> 2 \<and> (2::nat) \<le> 32 \<and>
   0 \<le>s (1::int32) \<and> 1 <s ccm_EdgeCountAtDepth (s_cage (ccs_Create quad_cage 2)) 2 \<and>
   ccs_EdgeToHalfedgeID ccs__EdgeToHalfedgeID_First (ccs_Create quad_cage 2) 1 2
     = ccs_EdgeToHalfedgeID_by_parity ccs__EdgeToHalfedgeID_First (ccs_Create quad_cage 2) 1 2 \<and>
   ccs_EdgeToHalfedgeID ccs__EdgeToHalfedgeID_First (ccs_Create quad_cage 2) 1 2 = Some 7"
proof -
  have h1: "(1::nat) \<le> 2" and h2: "(2::nat) \<le> 32" by simp_all
  have h3: "0 \<le>s (1::int32)"
    and h4: "1 <s ccm_EdgeCountAtDepth (s_cage (ccs_Create quad_cage 2)) 2"
    unfolding quad_edge_count_2 by (simp_all add: word_sle_eq word_sless_alt)
  have h: "(2::nat) \<le> 32 \<or>
      (0 \<le>s (1::int32) \<and> 1 <s ccm_EdgeCountAtDepth (s_cage (ccs_Create quad_cage 2)) 2)"
    using h2 by (rule disjI1)
  show ?thesis
    using h1 h2 h3 h4 ccs_EdgeToHalfedgeID_by_parity_eq [OF h1 h] quad_resolver_1_2 by blast
qed

text \<open>
  Claim C5 as stated, with the choice by the band of \<open>edgeID\<close>, fails on the quad at
  depth 2 for edge 1: the compiled version returns halfedge 7; the recursion by bands
  (the version under \<open>#if 0\<close>) finds 1 in the first radial band \<open>[0, 12)\<close> and returns
  \<open>4 * 0 = 0\<close>.
\<close>

theorem ccs_EdgeToHalfedgeID_not_by_band:
  "ccs_EdgeToHalfedgeID ccs__EdgeToHalfedgeID_First (ccs_Create quad_cage 2) 1 2 = Some 7 \<and>
   ccs_EdgeToHalfedgeID_recursive ccs__EdgeToHalfedgeID_First (ccs_Create quad_cage 2) 1 2 = Some 0"
  using quad_resolver_1_2 quad_recursive_1_2 by (intro conjI)

section \<open>The width of the path word\<close>

lemma heap_of_path_less: "heap_of_path bits < 2 ^ Suc (length bits)"
proof -
  have "foldl (\<lambda>h b. 2 * h + of_bool b) h bits < (h + 1) * 2 ^ length bits" for h :: nat
  proof (induction bits arbitrary: h)
    case Nil
    show ?case by simp
  next
    case (Cons b bits)
    have "foldl (\<lambda>h b. 2 * h + of_bool b) (2 * h + of_bool b) bits
        < (2 * h + of_bool b + 1) * 2 ^ length bits"
      by (rule Cons.IH)
    also have "\<dots> \<le> (2 * h + 2) * 2 ^ length bits"
      by (intro mult_right_mono) simp_all
    finally show ?case by (simp add: algebra_simps)
  qed
  from this [of 1] show ?thesis by (simp add: heap_of_path_def)
qed








section \<open>The round trip of the uv codec\<close>

text \<open>
  Rounding to an integer is off by at most one half, and the rounding to binary32 of a
  positive number below \<open>2 ^ 24\<close> is the rounding of its multiple by a power of two.
\<close>

lemma round_ties_to_even_error: "\<bar>of_int (round_ties_to_even y) - y\<bar> \<le> 1 / 2"
  unfolding round_ties_to_even_def Let_def by (auto simp: abs_if) linarith+

lemma round_ties_to_even_of_int: "round_ties_to_even (of_int n) = n"
  by (simp add: round_ties_to_even_def)

lemma round_ties_to_even_le: "y \<le> of_int N \<Longrightarrow> round_ties_to_even y \<le> N"
  using round_ties_to_even_error [of y] by (simp add: abs_if split: if_splits)

lemma round_ties_to_even_ge: "of_int N \<le> y \<Longrightarrow> N \<le> round_ties_to_even y"
  using round_ties_to_even_error [of y] by (simp add: abs_if split: if_splits)

lemma binary32_ulp_pow:
  assumes "0 < x" and "x < 2 ^ 24"
  shows "\<exists>n. binary32_ulp x = 1 / 2 ^ n \<and> x * 2 ^ n < 2 ^ 24 \<and>
             (2 ^ 23 \<le> x * 2 ^ n \<or> n = 149)"
proof -
  define e where "e = \<lfloor>log 2 x\<rfloor>"
  have lo: "2 powr of_int e \<le> x" and hi: "x < 2 powr of_int (e + 1)"
    using floor_log_eq_powr_iff [of x 2 e] assms(1) by (simp_all add: e_def)
  have "log 2 x < 24"
    using assms by (simp add: log_less_iff)
  then have e23: "e \<le> 23" unfolding e_def by linarith
  define e' where "e' = max (- 126) e"
  have e'23: "e' \<le> 23" and e'e: "e \<le> e'" and e'126: "- 126 \<le> e'"
    using e23 by (simp_all add: e'_def)
  define n where "n = nat (23 - e')"
  have ne: "of_int e' - 23 = - real n" using e'23 by (simp add: n_def)
  have u: "binary32_ulp x = 1 / 2 ^ n"
    using assms(1)
    by (simp add: binary32_ulp_def binary32_exponent_def e_def [symmetric] e'_def [symmetric] ne
        powr_minus_divide powr_realpow)
  have "23 - of_int e' = real n" using ne by linarith
  then have p: "(2::real) ^ n = 2 powr (23 - of_int e')"
    by (simp add: powr_realpow)
  have "x * 2 ^ n < 2 powr of_int (e + 1) * 2 powr (23 - of_int e')"
    unfolding p using hi by (intro mult_strict_right_mono) simp_all
  also have "\<dots> = 2 powr (of_int (e + 1) + (23 - of_int e'))"
    by (rule powr_add [symmetric])
  also have "\<dots> \<le> 2 powr 24"
    using e'e by (intro powr_mono) simp_all
  also have "\<dots> = 2 ^ 24"
    using powr_realpow [of "2::real" 24] by simp
  finally have a: "x * 2 ^ n < 2 ^ 24" .
  have b: "2 ^ 23 \<le> x * 2 ^ n \<or> n = 149"
  proof (cases "- 126 \<le> e")
    case True
    then have ee: "e' = e" by (simp add: e'_def)
    have "2 powr of_int e * 2 powr (23 - of_int e') \<le> x * 2 ^ n"
      unfolding p using lo by (intro mult_right_mono) simp_all
    moreover have "2 powr of_int e * 2 powr (23 - of_int e') = (2::real) powr (of_int e + (23 - of_int e'))"
      by (rule powr_add [symmetric])
    moreover have "(2::real) powr (of_int e + (23 - of_int e')) = 2 ^ 23"
      unfolding ee using powr_realpow [of "2::real" 23] by simp
    ultimately show ?thesis by simp
  next
    case False
    then have "e' = - 126" by (simp add: e'_def)
    then show ?thesis by (simp add: n_def)
  qed
  show ?thesis using u a b by blast
qed

lemma binary32_round_pow:
  assumes "0 < x" and "x < 2 ^ 24"
  obtains n where "x * 2 ^ n < 2 ^ 24" and "2 ^ 23 \<le> x * 2 ^ n \<or> n = 149"
    and "binary32_round x = of_int (round_ties_to_even (x * 2 ^ n)) / 2 ^ n"
    and "\<bar>binary32_round x - x\<bar> \<le> 1 / 2 ^ (n + 1)"
proof -
  obtain n where u: "binary32_ulp x = 1 / 2 ^ n" and a: "x * 2 ^ n < 2 ^ 24"
    and b: "2 ^ 23 \<le> x * 2 ^ n \<or> n = 149"
    using binary32_ulp_pow [OF assms] by blast
  have r: "binary32_round x = of_int (round_ties_to_even (x * 2 ^ n)) / 2 ^ n"
    using assms(1) by (simp add: binary32_round_def u)
  have "binary32_round x - x = (of_int (round_ties_to_even (x * 2 ^ n)) - x * 2 ^ n) / 2 ^ n"
    unfolding r by (simp add: field_simps)
  then have "\<bar>binary32_round x - x\<bar>
      = \<bar>of_int (round_ties_to_even (x * 2 ^ n)) - x * 2 ^ n\<bar> / 2 ^ n"
    by (simp add: abs_divide)
  also have "\<dots> \<le> (1 / 2) / 2 ^ n"
    by (intro divide_right_mono round_ties_to_even_error) simp
  finally have e: "\<bar>binary32_round x - x\<bar> \<le> 1 / 2 ^ (n + 1)" by simp
  show thesis using that [OF a b r e] .
qed

lemma binary32_round_of_int:
  assumes "0 \<le> k" and "k < 2 ^ 24"
  shows "binary32_round (of_int k) = of_int k"
proof (cases "k = 0")
  case True
  then show ?thesis by (simp add: binary32_round_def)
next
  case False
  then have "0 < (of_int k :: real)" "(of_int k :: real) < 2 ^ 24"
    using assms by simp_all
  then obtain n where r: "binary32_round (of_int k)
      = of_int (round_ties_to_even (of_int k * 2 ^ n)) / 2 ^ n"
    by (rule binary32_round_pow)
  have "(of_int k :: real) * 2 ^ n = of_int (k * 2 ^ n)" by simp
  then show ?thesis unfolding r by (simp only: round_ties_to_even_of_int) simp
qed


lemma pow2_exp_bound:
  fixes a :: nat
  assumes "(2::real) ^ a \<le> c * 2 ^ n" and "c < 2 ^ b"
  shows "a < b + n"
proof -
  have "c * 2 ^ n < 2 ^ b * (2::real) ^ n"
    using assms(2) by (intro mult_strict_right_mono) simp_all
  with assms(1) have "(2::real) ^ a < 2 ^ b * 2 ^ n" by (rule le_less_trans)
  then have "(2::real) ^ a < 2 ^ (b + n)" by (simp add: power_add)
  then show ?thesis by simp
qed

lemma uv_axis_round_trip:
  assumes "0 \<le> u" and "u \<le> 1"
  shows "\<exists>k. float_to_uint32 (binary32_round (u * 65535)) = Some k \<and> k AND 0xFFFF = k \<and>
             \<bar>binary32_round (uint32_to_float k / 65535) - u\<bar> \<le> 1 / 65535"
proof (cases "u = 0")
  case True
  have "float_to_uint32 (binary32_round (u * 65535)) = Some 0"
    by (simp add: True binary32_round_def float_to_uint32_def)
  moreover have "\<bar>binary32_round (uint32_to_float 0 / 65535) - u\<bar> \<le> 1 / 65535"
    by (simp add: True binary32_round_def uint32_to_float_def)
  ultimately show ?thesis by (intro exI [of _ 0]) simp
next
  case False
  define p where "p = u * 65535"
  have p0: "0 < p" and p1: "p \<le> 65535" using assms False by (simp_all add: p_def)
  then have "p < 2 ^ 24" by simp
  with p0 obtain n where pn: "p * 2 ^ n < 2 ^ 24" and norm: "2 ^ 23 \<le> p * 2 ^ n \<or> n = 149"
    and r: "binary32_round p = of_int (round_ties_to_even (p * 2 ^ n)) / 2 ^ n"
    and err: "\<bar>binary32_round p - p\<bar> \<le> 1 / 2 ^ (n + 1)"
    by (rule binary32_round_pow)
  define m where "m = round_ties_to_even (p * 2 ^ n)"
  define k where "k = m div 2 ^ n"
  have n8: "8 \<le> n"
  proof (rule ccontr)
    assume "\<not> 8 \<le> n"
    then have n7: "n \<le> 7" by simp
    then have "\<not> n = 149" by simp
    with norm have "2 ^ 23 \<le> p * 2 ^ n" by simp
    then have "23 < 16 + n" using p1 by (intro pow2_exp_bound [of 23 p n 16]) simp_all
    with n7 show False by simp
  qed
  have m0: "0 \<le> m" unfolding m_def using p0 by (intro round_ties_to_even_ge) simp
  have m1: "m \<le> 65535 * 2 ^ n"
    unfolding m_def using p1 by (intro round_ties_to_even_le) simp
  have k0: "0 \<le> k" unfolding k_def using m0 by (simp add: pos_imp_zdiv_nonneg_iff)
  have k1: "k \<le> 65535"
  proof -
    have "m div 2 ^ n \<le> (65535 * 2 ^ n) div 2 ^ n" using m1 by (rule zdiv_mono1) simp
    then show ?thesis by (simp add: k_def)
  qed
  have rm: "binary32_round p = of_int m / of_int (2 ^ n)" by (simp add: r m_def)
  have fl: "\<lfloor>binary32_round p\<rfloor> = k" unfolding rm k_def by (rule floor_divide_of_int_eq)
  have rk: "of_int k \<le> binary32_round p" using fl by linarith
  have rk1: "binary32_round p \<le> of_int k + 1 - 1 / 2 ^ n"
  proof -
    have "m mod 2 ^ n < 2 ^ n" by simp
    then have "m mod 2 ^ n \<le> 2 ^ n - 1" by linarith
    moreover have "m = k * 2 ^ n + m mod 2 ^ n"
      unfolding k_def by (rule div_mult_mod_eq [symmetric])
    ultimately have "m \<le> k * 2 ^ n + 2 ^ n - 1" by linarith
    then have "(of_int m :: real) \<le> of_int (k * 2 ^ n + 2 ^ n - 1)" by (simp only: of_int_le_iff)
    then have "(of_int m :: real) / 2 ^ n \<le> (of_int k * 2 ^ n + 2 ^ n - 1) / 2 ^ n"
      by (intro divide_right_mono) simp_all
    moreover have "(of_int k * 2 ^ n + 2 ^ n - 1) / 2 ^ n = of_int k + 1 - 1 / (2::real) ^ n"
      by (simp add: diff_divide_distrib add_divide_distrib)
    ultimately show ?thesis by (simp only: rm of_int_power of_int_numeral)
  qed
  have kr: "(of_int k :: real) \<le> 65535" using k1 by simp
  have kr0: "0 \<le> (of_int k :: real)" using k0 by simp
  have r0: "0 \<le> binary32_round p" using rk kr0 by linarith
  have "0 < (1::real) / 2 ^ n" by simp
  then have "binary32_round p < 65536" using rk1 kr by linarith
  then have r1: "binary32_round p < 2 ^ 32" by simp
  have enc: "float_to_uint32 (binary32_round (u * 65535)) = Some (word_of_int k)"
    using r0 r1 fl by (simp add: float_to_uint32_def p_def [symmetric])
  have uk: "unat (word_of_int k :: 32 word) = nat k"
    using k0 k1 by (simp add: unat_eq_nat_uint uint_word_of_int take_bit_int_eq_self)
  have msk: "(word_of_int k :: 32 word) AND 0xFFFF = word_of_int k"
  proof -
    have e: "(0xFFFF :: 32 word) = mask 16" by (simp add: mask_eq_exp_minus_1)
    have "take_bit 16 k = k" using k0 k1 by (intro take_bit_int_eq_self) simp_all
    then show ?thesis unfolding e by (simp only: and_mask_wi)
  qed
  have cv: "uint32_to_float (word_of_int k) = of_int k"
    using k0 k1 binary32_round_of_int [of k] by (simp add: uint32_to_float_def uk)
  define q :: real where "q = of_int k / 65535"
  define d where "d = binary32_round q"
  have pk_lo: "of_int k - 1 / 2 ^ (n + 1) \<le> p" using rk err by (simp add: abs_le_iff)
  have pk_hi: "p \<le> of_int k + 1 - 1 / 2 ^ n + 1 / 2 ^ (n + 1)"
    using rk1 err by (simp add: abs_le_iff)
  have half: "(1::real) / 2 ^ n = 2 * (1 / 2 ^ (n + 1))" by simp
  have pk_hi': "p \<le> of_int k + 1 - 1 / 2 ^ (n + 1)" using pk_hi unfolding half by linarith
  have uq: "u = p / 65535" by (simp add: p_def)
  have apos: "0 < (1::real) / 2 ^ (n + 1)" by simp
  have main: "\<bar>d - u\<bar> \<le> 1 / 65535"
  proof (cases "k = 0")
    case True
    then have "d = 0" by (simp add: d_def q_def binary32_round_def)
    moreover have "p \<le> 1" using pk_hi' apos unfolding True of_int_0 by linarith
    ultimately show ?thesis using p0 by (simp add: uq)
  next
    case False
    then have kpos: "1 \<le> k" using k0 by simp
    then have q0: "0 < q" by (simp add: q_def)
    have q1: "q \<le> 1" using kr by (simp add: q_def)
    then have "q < 2 ^ 24" by simp
    with q0 obtain nq where qnorm: "2 ^ 23 \<le> q * 2 ^ nq \<or> nq = 149"
      and qerr: "\<bar>binary32_round q - q\<bar> \<le> 1 / 2 ^ (nq + 1)"
      by (rule binary32_round_pow)
    have nq23: "23 \<le> nq"
    proof (cases "nq = 149")
      case True
      then show ?thesis by simp
    next
      case False
      with qnorm have "2 ^ 23 \<le> q * 2 ^ nq" by simp
      also have "\<dots> \<le> 1 * 2 ^ nq" using q1 by (intro mult_right_mono) simp_all
      finally have "(2::real) ^ 23 \<le> 2 ^ nq" by simp
      then show ?thesis using power_increasing_iff [of "2::real" 23 nq] by simp
    qed
    have "(1::real) / 2 ^ (nq + 1) \<le> 1 / 2 ^ 24"
      using nq23 by (intro divide_left_mono power_increasing) simp_all
    with qerr have crude: "\<bar>d - q\<bar> \<le> 1 / 2 ^ 24" unfolding d_def by linarith
    have qu: "q - u = (of_int k - p) / 65535" by (simp add: q_def uq diff_divide_distrib)
    show ?thesis
    proof (cases "p \<le> of_int k")
      case True
      have "(1::real) / 2 ^ (n + 1) \<le> 1 / 2 ^ 9"
        using n8 by (intro divide_left_mono power_increasing) simp_all
      then have "of_int k - p \<le> 1 / 2 ^ 9" using pk_lo by linarith
      then have "(of_int k - p) / 65535 \<le> (1 / 2 ^ 9) / 65535"
        by (intro divide_right_mono) simp_all
      moreover have "0 \<le> (of_int k - p) / 65535" using True by simp
      ultimately have "0 \<le> q - u" "q - u \<le> (1 / 2 ^ 9) / 65535" unfolding qu by simp_all
      moreover have "((1::real) / 2 ^ 9) / 65535 \<le> 1 / 131070" by simp
      ultimately have A: "0 \<le> q - u" "q - u \<le> 1 / 131070" by linarith+
      have "(1::real) / 2 ^ 24 \<le> 1 / 131070" by simp
      with crude have "\<bar>d - q\<bar> \<le> 1 / 131070" by linarith
      then have B: "d - q \<le> 1 / 131070" "q - d \<le> 1 / 131070" by arith+
      have C: "(1::real) / 131070 + 1 / 131070 = 1 / 65535" by simp
      show ?thesis
      proof (rule abs_leI)
        show "d - u \<le> 1 / 65535" using A B C by linarith
        show "- (d - u) \<le> 1 / 65535" using A B C by linarith
      qed
    next
      case False
      then have pgt: "of_int k < p" by simp
      have "(1::real) \<le> of_int k" using kpos by simp
      then have p1': "1 < p" using pgt by linarith
      have pnorm: "2 ^ 23 \<le> p * 2 ^ n"
      proof (cases "n = 149")
        case True
        have "(2::real) ^ 149 < p * 2 ^ 149" using p1' by simp
        then show ?thesis using pn unfolding True by simp
      next
        case False
        with norm show ?thesis by simp
      qed
      have n23: "n \<le> 23"
      proof -
        have "1 * (2::real) ^ n < p * 2 ^ n" using p1' by (intro mult_strict_right_mono) simp_all
        then have "(2::real) ^ n < p * 2 ^ n" by simp
        from this pn have "(2::real) ^ n < 2 ^ 24" by (rule less_trans)
        then have "n < 24" using power_strict_increasing_iff [of "2::real" n 24] by simp
        then show ?thesis by simp
      qed
      obtain j where nj: "n = j + 8" using n8 by (metis le_add_diff_inverse2)
      have "(of_int k :: real) < 65535" using pgt p1 by linarith
      then have klt: "k < 65535" by simp
      have "of_int k * 2 ^ n < p * 2 ^ n"
        using pgt by (intro mult_strict_right_mono) simp_all
      from this pn have "of_int k * 2 ^ n < (2::real) ^ 24" by (rule less_trans)
      then have "of_int (k * 2 ^ j) * (2::real) ^ 8 < 65536 * 2 ^ 8"
        by (simp add: nj power_add)
      then have "(of_int (k * 2 ^ j) :: real) < 65536" by simp
      then have "k * 2 ^ j < 65536" by (simp only: of_int_less_numeral_iff)
      moreover have "k * 2 ^ j \<noteq> 65535"
      proof (cases "j = 0")
        case True
        then show ?thesis using klt by simp
      next
        case False
        then have "even (k * 2 ^ j)" by simp
        moreover have "odd (65535 :: int)" by simp
        ultimately show ?thesis by metis
      qed
      ultimately have "k * 2 ^ j < 65535" by linarith
      then have "(of_int (k * 2 ^ j) :: real) < 65535" by (simp only: of_int_less_numeral_iff)
      then have kb: "of_int k * (2::real) ^ j < 65535" by simp
      have "q * 2 ^ (n + 15) = (of_int k * 2 ^ j) * 2 ^ 23 / 65535"
        by (simp add: q_def nj power_add)
      also have "\<dots> < 65535 * 2 ^ 23 / 65535"
        using kb by (intro divide_strict_right_mono mult_strict_right_mono) simp_all
      finally have qb: "q * 2 ^ (n + 15) < 2 ^ 23" by simp
      have nq16: "n + 16 \<le> nq"
      proof (rule ccontr)
        assume "\<not> n + 16 \<le> nq"
        then have le: "nq \<le> n + 15" by simp
        with n23 have "nq \<noteq> 149" by simp
        with qnorm have "2 ^ 23 \<le> q * 2 ^ nq" by simp
        also have "\<dots> \<le> q * 2 ^ (n + 15)"
          using q0 le by (intro mult_left_mono power_increasing) simp_all
        finally show False using qb by simp
      qed
      have "(1::real) / 2 ^ (nq + 1) \<le> 1 / 2 ^ (n + 17)"
        using nq16 by (intro divide_left_mono power_increasing) simp_all
      with qerr have fine: "\<bar>d - q\<bar> \<le> 1 / 2 ^ (n + 17)" unfolding d_def by linarith
      define a :: real where "a = 1 / 2 ^ (n + 1)"
      have a0: "0 < a" by (simp add: a_def)
      have a16: "1 / 2 ^ (n + 17) = a / 65536" by (simp add: a_def power_add)
      have "a / 65536 \<le> a / 65535" using a0 by (intro divide_left_mono) simp_all
      with fine have fine': "\<bar>d - q\<bar> \<le> a / 65535" unfolding a16 by linarith
      have "p - of_int k \<le> 1 - a" using pk_hi' unfolding a_def by linarith
      then have "(p - of_int k) / 65535 \<le> (1 - a) / 65535"
        by (intro divide_right_mono) simp_all
      moreover have "0 < (p - of_int k) / 65535" using pgt by simp
      moreover have "u - q = (p - of_int k) / 65535" by (simp add: q_def uq diff_divide_distrib)
      ultimately have A: "0 < u - q" "u - q \<le> (1 - a) / 65535" by simp_all
      have C: "(1 - a) / 65535 + a / 65535 = 1 / 65535" by (simp add: field_simps)
      have B: "d - q \<le> a / 65535" "q - d \<le> a / 65535"
        using fine' by arith+
      have "(1::real) / 2 ^ 24 \<le> 1 / 65535" by simp
      with crude have "\<bar>d - q\<bar> \<le> 1 / 65535" by linarith
      then have D: "d - q \<le> 1 / 65535" by arith
      show ?thesis
      proof (rule abs_leI)
        show "d - u \<le> 1 / 65535" using A D by linarith
        show "- (d - u) \<le> 1 / 65535" using A B C by linarith
      qed
    qed
  qed
  show ?thesis
    using enc msk main by (intro exI [of _ "word_of_int k"]) (simp add: cv d_def q_def)
qed

lemma ffff_mask: "(0xFFFF :: 32 word) = mask 16"
  by (simp add: mask_eq_exp_minus_1)

lemma unpack_low:
  "drop_bit 0 ((a AND 0xFFFF) OR push_bit 16 (b AND 0xFFFF)) AND 0xFFFF = a AND (0xFFFF :: 32 word)"
  unfolding ffff_mask by (rule bit_eqI) (auto simp: bit_simps)

lemma unpack_high:
  "drop_bit 16 ((a AND 0xFFFF) OR push_bit 16 (b AND 0xFFFF)) AND 0xFFFF = b AND (0xFFFF :: 32 word)"
  unfolding ffff_mask by (rule bit_eqI) (auto simp: bit_simps)

lemma binary32_round_eval:
  assumes "2 powr of_int e \<le> x" and "x < 2 powr of_int (e + 1)" and "- 126 \<le> e"
  shows "binary32_round x
       = of_int (round_ties_to_even (x / 2 powr (of_int e - 23))) * 2 powr (of_int e - 23)"
proof -
  have "0 < 2 powr real_of_int e" by simp
  with assms(1) have x0: "0 < x" by linarith
  then have "\<lfloor>log 2 x\<rfloor> = e"
    using floor_log_eq_powr_iff [of x 2 e] assms(1,2) by simp
  then have "binary32_exponent x = e"
    using x0 assms(3) by (simp add: binary32_exponent_def)
  then show ?thesis using x0 by (simp add: binary32_round_def binary32_ulp_def)
qed

lemma encode_half_quarter: "cc__EncodeUv (1 / 2, 1 / 4) = Some 0x3FFF7FFF"
proof -
  have a: "binary32_round (65535 / 2) = 65535 / 2"
    using binary32_round_eval [of 14 "65535 / 2"] by (simp add: round_ties_to_even_def Let_def powr_neg_numeral powr_numeral)
  have b: "binary32_round (65535 / 4) = 65535 / 4"
    using binary32_round_eval [of 13 "65535 / 4"] by (simp add: round_ties_to_even_def Let_def powr_neg_numeral powr_numeral)
  show ?thesis
    by (simp add: cc__EncodeUv_def binary32_mul_def a b float_to_uint32_def)
qed

lemma decode_half_quarter:
  "cc__DecodeUv 0x3FFF7FFF = (16776960 / 2 ^ 25, 16776448 / 2 ^ 26)"
proof -
  have a: "binary32_round (32767 / 65535) = 16776960 / 2 ^ 25"
    using binary32_round_eval [of "- 2" "32767 / 65535"] by (simp add: round_ties_to_even_def Let_def powr_neg_numeral powr_numeral)
  have b: "binary32_round (16383 / 65535) = 16776448 / 2 ^ 26"
    using binary32_round_eval [of "- 3" "16383 / 65535"] by (simp add: round_ties_to_even_def Let_def powr_neg_numeral powr_numeral)
  have c: "binary32_round 32767 = 32767" "binary32_round 16383 = 16383"
    using binary32_round_of_int [of 32767] binary32_round_of_int [of 16383] by simp_all
  have w: "drop_bit 0 (0x3FFF7FFF :: 32 word) AND 0xFFFF = 32767"
    "drop_bit 16 (0x3FFF7FFF :: 32 word) AND 0xFFFF = 16383" by simp_all
  have f: "uint32_to_float 32767 = 32767" "uint32_to_float 16383 = 16383"
    using c by (simp_all add: uint32_to_float_def)
  show ?thesis
    unfolding cc__DecodeUv_def Let_def w f binary32_div_def a b ..
qed

text \<open>
  Claim C9. For every \<open>uv\<close> in \<open>[0,1]^2\<close> \<open>cc__EncodeUv\<close> returns a word, and
  \<open>cc__DecodeUv\<close> of that word differs from \<open>uv\<close> by at most \<open>1 / 65535\<close> on each axis.
  The theorem is stated for all real \<open>u\<close> and \<open>v\<close> in \<open>[0,1]\<close>, the binary32 numbers of
  the interval among them.
\<close>

theorem cc__DecodeUv_cc__EncodeUv_error:
  assumes "0 \<le> u" and "u \<le> 1" and "0 \<le> v" and "v \<le> 1"
  shows "\<exists>w. cc__EncodeUv (u, v) = Some w \<and>
             \<bar>fst (cc__DecodeUv w) - u\<bar> \<le> 1 / 65535 \<and>
             \<bar>snd (cc__DecodeUv w) - v\<bar> \<le> 1 / 65535"
proof -
  obtain ku where eu: "float_to_uint32 (binary32_round (u * 65535)) = Some ku"
    and mu: "ku AND 0xFFFF = ku"
    and du: "\<bar>binary32_round (uint32_to_float ku / 65535) - u\<bar> \<le> 1 / 65535"
    using uv_axis_round_trip [OF assms(1) assms(2)] by blast
  obtain kv where ev: "float_to_uint32 (binary32_round (v * 65535)) = Some kv"
    and mv: "kv AND 0xFFFF = kv"
    and dv: "\<bar>binary32_round (uint32_to_float kv / 65535) - v\<bar> \<le> 1 / 65535"
    using uv_axis_round_trip [OF assms(3) assms(4)] by blast
  define w where "w = (ku AND 0xFFFF) OR push_bit 16 (kv AND 0xFFFF)"
  have e: "cc__EncodeUv (u, v) = Some w"
    by (simp add: cc__EncodeUv_def binary32_mul_def eu ev w_def)
  have lo: "drop_bit 0 w AND 0xFFFF = ku" unfolding w_def unpack_low by (rule mu)
  have hi: "drop_bit 16 w AND 0xFFFF = kv" unfolding w_def unpack_high by (rule mv)
  have "fst (cc__DecodeUv w) = binary32_round (uint32_to_float ku / 65535)"
    and "snd (cc__DecodeUv w) = binary32_round (uint32_to_float kv / 65535)"
    unfolding cc__DecodeUv_def Let_def lo hi by (simp_all add: binary32_div_def)
  with e du dv show ?thesis by simp
qed

text \<open>
  The hypotheses of C9 hold for \<open>uv = (0.5f, 0.25f)\<close>, two binary32 numbers (the
  rounding leaves them as they are): the code word is \<open>0x3FFF7FFF\<close>
  (\<open>32767\<close> and \<open>16383\<close>), and it decodes to \<open>16776960 / 2 ^ 25\<close> and
  \<open>16776448 / 2 ^ 26\<close>, the binary32 numbers nearest to \<open>32767 / 65535\<close> and
  \<open>16383 / 65535\<close>.
\<close>

theorem cc__DecodeUv_cc__EncodeUv_error_witness:
  "(0::real) \<le> 1 / 2 \<and> (1::real) / 2 \<le> 1 \<and> (0::real) \<le> 1 / 4 \<and> (1::real) / 4 \<le> 1 \<and>
   binary32_round (1 / 2) = 1 / 2 \<and> binary32_round (1 / 4) = 1 / 4 \<and>
   cc__EncodeUv (1 / 2, 1 / 4) = Some 0x3FFF7FFF \<and>
   cc__DecodeUv 0x3FFF7FFF = (16776960 / 2 ^ 25, 16776448 / 2 ^ 26) \<and>
   \<bar>fst (cc__DecodeUv 0x3FFF7FFF) - 1 / 2\<bar> \<le> 1 / 65535 \<and>
   \<bar>snd (cc__DecodeUv 0x3FFF7FFF) - 1 / 4\<bar> \<le> 1 / 65535"
proof -
  have h1: "(0::real) \<le> 1 / 2" and h2: "(1::real) / 2 \<le> 1"
    and h3: "(0::real) \<le> 1 / 4" and h4: "(1::real) / 4 \<le> 1" by simp_all
  note t = cc__DecodeUv_cc__EncodeUv_error [OF h1 h2 h3 h4, unfolded encode_half_quarter]
  then have "\<bar>fst (cc__DecodeUv 0x3FFF7FFF) - 1 / 2\<bar> \<le> 1 / 65535"
    and "\<bar>snd (cc__DecodeUv 0x3FFF7FFF) - 1 / 4\<bar> \<le> 1 / 65535" by auto
  moreover have "binary32_round (1 / 2) = 1 / 2"
    using binary32_round_eval [of "- 1" "1 / 2"]
    by (simp add: round_ties_to_even_def Let_def powr_neg_numeral powr_numeral)
  moreover have "binary32_round (1 / 4) = 1 / 4"
    using binary32_round_eval [of "- 2" "1 / 4"]
    by (simp add: round_ties_to_even_def Let_def powr_neg_numeral powr_numeral)
  ultimately show ?thesis
    using h1 h2 h3 h4 encode_half_quarter decode_half_quarter by (intro conjI)
qed

end
